theory Spec2Isabelle
  imports Complex_Main "HOL-Library.Stream" "HOL-Library.Signed_Division"
begin

section \<open>Scalable Bayesian rule list training (train.c)\<close>

text \<open>
  A shallow embedding of \<^verbatim>\<open>src/train.c\<close>: the acceptance predicates, \<^verbatim>\<open>propose\<close>,
  \<^verbatim>\<open>train\<close>, \<^verbatim>\<open>get_theta\<close>, \<^verbatim>\<open>run_mcmc\<close>, the cooling schedule of
  \<^verbatim>\<open>run_simulated_annealing\<close>, \<^verbatim>\<open>compute_log_posterior\<close> and \<^verbatim>\<open>ruleset_proposal\<close>.
  The file is compiled with \<^verbatim>\<open>debug = 0\<close>, so the prints guarded by \<^verbatim>\<open>debug\<close> are left
  out; the unconditional NaN warnings of \<^verbatim>\<open>compute_log_posterior\<close> are kept as output.
\<close>

subsection \<open>Doubles\<close>

text \<open>
  A C \<^verbatim>\<open>double\<close> is a NaN, an infinity or a finite number. Finite numbers are modelled as
  reals: rounding, overflow to infinity and the sign of zero are not modelled (zero is
  \<open>+0\<close>). The comparisons are those of IEEE 754: every ordered comparison with a NaN is false.
\<close>

datatype double = NaN | MInf | Fin real | PInf

fun dlt :: "double \<Rightarrow> double \<Rightarrow> bool" where
  "dlt (Fin x) (Fin y) = (x < y)"
| "dlt MInf (Fin y) = True"
| "dlt MInf PInf = True"
| "dlt (Fin x) PInf = True"
| "dlt _ _ = False"

definition dgt :: "double \<Rightarrow> double \<Rightarrow> bool" where
  "dgt a b = dlt b a"

definition dge :: "double \<Rightarrow> double \<Rightarrow> bool" where
  "dge a b = (a \<noteq> NaN \<and> b \<noteq> NaN \<and> \<not> dlt a b)"

definition dne :: "double \<Rightarrow> double \<Rightarrow> bool" where
  \<comment> \<open>\<^verbatim>\<open>a != b\<close>: true when either side is a NaN\<close>
  "dne a b = (a = NaN \<or> b = NaN \<or> a \<noteq> b)"

fun dneg :: "double \<Rightarrow> double" where
  "dneg NaN = NaN"
| "dneg MInf = PInf"
| "dneg PInf = MInf"
| "dneg (Fin x) = Fin (- x)"

fun dadd :: "double \<Rightarrow> double \<Rightarrow> double" where
  "dadd (Fin x) (Fin y) = Fin (x + y)"
| "dadd NaN _ = NaN"
| "dadd _ NaN = NaN"
| "dadd PInf MInf = NaN"
| "dadd MInf PInf = NaN"
| "dadd PInf _ = PInf"
| "dadd _ PInf = PInf"
| "dadd MInf _ = MInf"
| "dadd _ MInf = MInf"

definition dsub :: "double \<Rightarrow> double \<Rightarrow> double" where
  "dsub a b = dadd a (dneg b)"

definition dsign :: "real \<Rightarrow> double" where
  \<comment> \<open>the infinity with the sign of a number, zero counted as positive\<close>
  "dsign x = (if 0 \<le> x then PInf else MInf)"

fun dmul :: "double \<Rightarrow> double \<Rightarrow> double" where
  "dmul (Fin x) (Fin y) = Fin (x * y)"
| "dmul NaN _ = NaN"
| "dmul _ NaN = NaN"
| "dmul (Fin x) PInf = (if x = 0 then NaN else dsign x)"
| "dmul (Fin x) MInf = (if x = 0 then NaN else dsign (- x))"
| "dmul PInf (Fin y) = (if y = 0 then NaN else dsign y)"
| "dmul MInf (Fin y) = (if y = 0 then NaN else dsign (- y))"
| "dmul PInf PInf = PInf"
| "dmul MInf MInf = PInf"
| "dmul PInf MInf = MInf"
| "dmul MInf PInf = MInf"

fun ddiv :: "double \<Rightarrow> double \<Rightarrow> double" where
  "ddiv (Fin x) (Fin y) =
     (if y = 0 then (if x = 0 then NaN else dsign x) else Fin (x / y))"
| "ddiv NaN _ = NaN"
| "ddiv _ NaN = NaN"
| "ddiv (Fin x) PInf = Fin 0"
| "ddiv (Fin x) MInf = Fin 0"
| "ddiv PInf (Fin y) = dsign y"
| "ddiv MInf (Fin y) = dsign (- y)"
| "ddiv PInf PInf = NaN"
| "ddiv PInf MInf = NaN"
| "ddiv MInf PInf = NaN"
| "ddiv MInf MInf = NaN"

fun dlog :: "double \<Rightarrow> double" where
  "dlog NaN = NaN"
| "dlog MInf = NaN"
| "dlog PInf = PInf"
| "dlog (Fin x) = (if x < 0 then NaN else if x = 0 then MInf else Fin (ln x))"

fun dexp :: "double \<Rightarrow> double" where
  "dexp NaN = NaN"
| "dexp MInf = Fin 0"
| "dexp PInf = PInf"
| "dexp (Fin x) = Fin (exp x)"

definition d_of_int :: "int \<Rightarrow> double" where
  \<comment> \<open>the conversion of an \<^verbatim>\<open>int\<close> to \<^verbatim>\<open>double\<close>\<close>
  "d_of_int i = Fin (of_int i)"

subsection \<open>Failures\<close>

text \<open>
  What the C program does not define, and what it gives up on, is a value of the model:
  an allocation that fails, a read outside an array, a remainder by zero, a cast of a
  double that has no \<^verbatim>\<open>int\<close>, a read of a variable that was never written, a NULL
  pointer, a table that was freed, and a loop that does not return.

  An \<^verbatim>\<open>int\<close> of the source is an integer of the model. The counters, the sizes and the
  indices are the only \<^verbatim>\<open>int\<close>s that the source adds to; none of them leaves the range
  of an \<^verbatim>\<open>int\<close> in fewer than \<open>2^31\<close> steps, and overflow is not modelled.
\<close>

datatype error =
    OutOfMemory | OutOfBounds | DivByZero | BadCast | Uninitialised | NullPointer
  | UseAfterFree | NonTermination

definition bindE :: "error + 'a \<Rightarrow> ('a \<Rightarrow> error + 'b) \<Rightarrow> error + 'b" where
  \<comment> \<open>sequencing: a failure ends the computation\<close>
  "bindE m f = (case m of Inl e \<Rightarrow> Inl e | Inr x \<Rightarrow> f x)"

definition nth_e :: "'a list \<Rightarrow> int \<Rightarrow> error + 'a" where
  \<comment> \<open>\<^verbatim>\<open>xs[i]\<close>\<close>
  "nth_e xs i = (if 0 \<le> i \<and> i < int (length xs) then Inr (xs ! nat i) else Inl OutOfBounds)"

definition c_rem :: "int \<Rightarrow> int \<Rightarrow> error + int" where
  \<comment> \<open>\<^verbatim>\<open>a % b\<close>: the remainder of the division that truncates\<close>
  "c_rem a b = (if b = 0 then Inl DivByZero else Inr (a smod b))"

definition d_to_int :: "double \<Rightarrow> error + int" where
  \<comment> \<open>\<^verbatim>\<open>(int)x\<close>: truncation towards zero, defined when the result is an \<^verbatim>\<open>int\<close>\<close>
  "d_to_int d =
     (case d of
        Fin x \<Rightarrow>
          (let t = (if 0 \<le> x then \<lfloor>x\<rfloor> else \<lceil>x\<rceil>)
           in if - 2147483648 \<le> t \<and> t \<le> 2147483647 then Inr t else Inl BadCast)
      | _ \<Rightarrow> Inl BadCast)"

function for_loop :: "int \<Rightarrow> int \<Rightarrow> (int \<Rightarrow> 's \<Rightarrow> error + 's) \<Rightarrow> 's \<Rightarrow> error + 's" where
  \<comment> \<open>\<^verbatim>\<open>for (int i = a; i < n; i++) body\<close>, the body working on the state \<open>s\<close>\<close>
  "for_loop i n body s =
     (if i < n then bindE (body i s) (\<lambda>s'. for_loop (i + 1) n body s')
      else Inr s)"
  by pat_completeness auto
termination
  by (relation "measure (\<lambda>(i, n, body, s). nat (n - i))") auto

declare for_loop.simps [simp del]

subsection \<open>Data (rule.h)\<close>

text \<open>
  The declarations of \<^verbatim>\<open>rule.h\<close> are not among the sources; the records hold the fields
  that \<^verbatim>\<open>train.c\<close> reads. A bit vector is a list of booleans, one per sample.
\<close>

datatype 'a ptr = Null | Ptr 'a | Freed

record rule =
  cardinality :: int
  truthtable :: "bool list"
  support :: int

record ruleset_entry =
  rule_id :: int
  captures :: "bool list"
  ncaptured :: int

record ruleset =
  n_rules :: int
  n_samples :: int
  rs_rules :: "ruleset_entry list"

record params =
  lambda :: double
  eta :: double
  alpha :: "double \<times> double"
  threshold :: double
  p_iters :: int
  p_init_size :: int
  nchain :: int

record data =
  d_nsamples :: int
  d_nrules :: int
  d_rules :: "rule list"
  d_labels :: "rule list"

record pred_model =
  pm_theta :: "double list ptr"
  pm_rs :: ruleset

subsection \<open>The state of the process\<close>

datatype warning = NAN_log_eta_norm int | NAN_here_aa int | NAN_here_bb int

record globals =
  g_rand :: "int stream"
  g_random :: "int stream"
  log_lambda_pmf :: "double list ptr"
  log_eta_pmf :: "double list ptr"
  eta_norm :: double
  n_add :: int
  n_delete :: int
  n_swap :: int
  out :: "warning list"

text \<open>
  \<open>g_rand\<close> and \<open>g_random\<close> are the results that \<^verbatim>\<open>rand()\<close> and \<^verbatim>\<open>random()\<close> will return,
  in order. A table is \<open>Null\<close> until it is allocated and \<open>Freed\<close> once \<^verbatim>\<open>train\<close> has freed it. \<open>out\<close> is what the
  unconditional \<^verbatim>\<open>printf\<close>s of \<^verbatim>\<open>compute_log_posterior\<close> have written.
\<close>

definition RAND_MAX :: int where
  \<comment> \<open>\<^verbatim>\<open>stdlib.h\<close> of glibc\<close>
  "RAND_MAX = 2147483647"

definition c_rand :: "globals \<Rightarrow> int \<times> globals" where
  "c_rand g = (shd (g_rand g), g\<lparr>g_rand := stl (g_rand g)\<rparr>)"

definition c_random :: "globals \<Rightarrow> int \<times> globals" where
  "c_random g = (shd (g_random g), g\<lparr>g_random := stl (g_random g)\<rparr>)"

subsection \<open>The libraries train.c calls\<close>

text \<open>
  The functions of \<^verbatim>\<open>rule.c\<close> and of the GNU Scientific Library are not among the sources.
  They are parameters of the model: every theorem holds for any implementation of them.
  A function that can fail or not return gives an \<open>error\<close>.
\<close>

record env =
  gsl_ran_poisson_pdf :: "int \<Rightarrow> double \<Rightarrow> double"
  gsl_cdf_poisson_P :: "int \<Rightarrow> double \<Rightarrow> double"
  gsl_sf_lngamma :: "double \<Rightarrow> double"
  rule_vand :: "bool list \<Rightarrow> bool list \<Rightarrow> int \<Rightarrow> bool list \<times> int"
  ruleset_copy :: "ruleset \<Rightarrow> error + ruleset"
  ruleset_add :: "rule list \<Rightarrow> int \<Rightarrow> ruleset \<Rightarrow> int \<Rightarrow> int \<Rightarrow> error + ruleset"
  ruleset_delete :: "rule list \<Rightarrow> int \<Rightarrow> ruleset \<Rightarrow> int \<Rightarrow> ruleset"
  ruleset_swap_any :: "ruleset \<Rightarrow> int \<Rightarrow> int \<Rightarrow> rule list \<Rightarrow> ruleset"
  ruleset_backup :: "ruleset \<Rightarrow> int list"
  ruleset_init :: "int \<Rightarrow> int \<Rightarrow> int list \<Rightarrow> rule list \<Rightarrow> error + ruleset"
  pick_random_rule :: "int \<Rightarrow> ruleset \<Rightarrow> globals \<Rightarrow> error + (int \<times> globals)"
  create_random_ruleset ::
    "int \<Rightarrow> int \<Rightarrow> int \<Rightarrow> rule list \<Rightarrow> globals \<Rightarrow> error + (ruleset \<times> globals)"
  calloc_pred_model :: bool
  malloc_theta :: bool

text \<open>
  \<open>calloc_pred_model\<close> and \<open>malloc_theta\<close> say whether the two allocations that
  \<^verbatim>\<open>train.c\<close> checks succeed. The tables of \<^verbatim>\<open>compute_log_posterior\<close> are allocated
  without a check; their allocation is taken to succeed.
\<close>

definition deref :: "'a ptr \<Rightarrow> error + 'a" where
  "deref p = (case p of Null \<Rightarrow> Inl NullPointer | Ptr x \<Rightarrow> Inr x | Freed \<Rightarrow> Inl UseAfterFree)"

subsection \<open>compute_log_posterior\<close>

definition MAX_RULE_CARDINALITY :: int where
  "MAX_RULE_CARDINALITY = 10"

definition init_pmf :: "env \<Rightarrow> int \<Rightarrow> params \<Rightarrow> globals \<Rightarrow> globals" where
  \<comment> \<open>Prior pre-calculation, done while \<^verbatim>\<open>log_lambda_pmf\<close> is NULL\<close>
  "init_pmf env nrules p g =
     (if log_lambda_pmf g = Null then
        g\<lparr>log_lambda_pmf :=
            Ptr (map (\<lambda>i. dlog (gsl_ran_poisson_pdf env i (lambda p))) [0..nrules - 1]),
          log_eta_pmf :=
            Ptr (map (\<lambda>i. dlog (gsl_ran_poisson_pdf env i (eta p))) [0..MAX_RULE_CARDINALITY]),
          eta_norm :=
            dsub (gsl_cdf_poisson_P env MAX_RULE_CARDINALITY (eta p))
              (gsl_ran_poisson_pdf env 0 (eta p))\<rparr>
      else g)"

definition count_cards :: "rule list \<Rightarrow> int \<Rightarrow> error + int list" where
  \<comment> \<open>\<^verbatim>\<open>card_count\<close>: how many rules of the library have each cardinality
      (\<^verbatim>\<open>maxcard\<close> is computed by the source and never read)\<close>
  "count_cards rules nrules =
     for_loop 0 nrules
       (\<lambda>i cc.
          bindE (nth_e rules i) (\<lambda>r.
          bindE (nth_e cc (cardinality r)) (\<lambda>c.
          Inr (cc[nat (cardinality r) := c + 1]))))
       (replicate (nat (1 + MAX_RULE_CARDINALITY)) 0)"

definition prefix_lambda_index :: "ruleset \<Rightarrow> params \<Rightarrow> error + int" where
  \<comment> \<open>the index of the entry of \<^verbatim>\<open>log_lambda_pmf\<close> that starts \<^verbatim>\<open>prefix_prior\<close>\<close>
  "prefix_lambda_index rs p =
     (if dgt (d_of_int (n_rules rs - 1)) (lambda p) then Inr (n_rules rs - 1)
      else d_to_int (lambda p))"

record prior_state =
  log_prior :: double
  prefix_prior :: double
  card_count :: "int list"
  norm_constant :: double
  printed :: "warning list"

definition prior_step ::
  "ruleset \<Rightarrow> rule list \<Rightarrow> double list \<Rightarrow> int \<Rightarrow> int \<Rightarrow> prior_state \<Rightarrow> error + prior_state"
where
  \<comment> \<open>the body of the loop over the positions before the default rule\<close>
  "prior_step rs rules eta_pmf length4bound i st =
     (bindE (nth_e (rs_rules rs) i) (\<lambda>ent.
      bindE (nth_e rules (rule_id ent)) (\<lambda>r.
      bindE (nth_e eta_pmf (cardinality r)) (\<lambda>lep.
      bindE (nth_e (card_count st) (cardinality r)) (\<lambda>cc.
      (let li = cardinality r;
           nc = norm_constant st;
           w1 = (if dne (dlog nc) (dlog nc) then [NAN_log_eta_norm i] else []);
           lp1 = dadd (log_prior st) (dsub lep (dlog nc));
           w2 = (if dne lp1 lp1 then [NAN_here_aa i] else []);
           lp2 = dadd lp1 (dneg (dlog (d_of_int cc)));
           w3 = (if dne lp2 lp2 then [NAN_here_bb i] else []);
           pp = (if i \<le> length4bound
                 then dadd (prefix_prior st)
                        (dsub (dsub lep (dlog nc)) (dlog (d_of_int cc)))
                 else prefix_prior st);
           nc' = (if cc - 1 = 0 then dsub nc (dexp lep) else nc)
       in Inr \<lparr>log_prior = lp2, prefix_prior = pp,
                card_count = (card_count st)[nat li := cc - 1],
                norm_constant = nc', printed = printed st @ w1 @ w2 @ w3\<rparr>))))))"

record lik_state =
  log_likelihood :: double
  prefix_log_likelihood :: double
  left0 :: int
  left1 :: int

definition lik_step ::
  "env \<Rightarrow> ruleset \<Rightarrow> rule \<Rightarrow> params \<Rightarrow> int \<Rightarrow> int \<Rightarrow> lik_state \<Rightarrow> error + lik_state"
where
  \<comment> \<open>the body of the loop over all positions; \<open>l0\<close> is \<^verbatim>\<open>labels[0]\<close>\<close>
  "lik_step env rs l0 p length4bound j st =
     (bindE (nth_e (rs_rules rs) j) (\<lambda>ent.
      (let lg = gsl_sf_lngamma env;
           n0 = snd (rule_vand env (captures ent) (truthtable l0) (n_samples rs));
           n1 = ncaptured ent - n0;
           ll = dadd (log_likelihood st)
                  (dsub
                     (dadd (lg (dadd (d_of_int n0) (fst (alpha p))))
                        (lg (dadd (d_of_int n1) (snd (alpha p)))))
                     (lg (dadd (dadd (d_of_int (n0 + n1)) (fst (alpha p))) (snd (alpha p)))));
           lf0 = left0 st - n0;
           lf1 = left1 st - n1;
           pl1 = (if j \<le> length4bound
                  then dadd (prefix_log_likelihood st)
                         (dsub
                            (dadd (lg (d_of_int (n0 + 1))) (lg (d_of_int (n1 + 1))))
                            (lg (d_of_int (n0 + n1 + 2))))
                  else prefix_log_likelihood st);
           pl2 = (if j \<le> length4bound \<and> j = length4bound
                  then dadd pl1
                         (dsub
                            (dadd
                               (dadd
                                  (dsub
                                     (dadd (lg (d_of_int 1)) (lg (d_of_int (lf0 + 1))))
                                     (lg (d_of_int (lf0 + 2))))
                                  (lg (d_of_int 1)))
                               (lg (d_of_int (lf1 + 1))))
                            (lg (d_of_int (lf1 + 2))))
                  else pl1)
       in Inr \<lparr>log_likelihood = ll, prefix_log_likelihood = pl2,
                left0 = lf0, left1 = lf1\<rparr>)))"

definition compute_log_posterior ::
  "env \<Rightarrow> ruleset \<Rightarrow> rule list \<Rightarrow> int \<Rightarrow> rule list \<Rightarrow> params \<Rightarrow> int \<Rightarrow> int \<Rightarrow> globals
     \<Rightarrow> error + (double \<times> double \<times> globals)"
where
  \<comment> \<open>the result is the log posterior, \<^verbatim>\<open>*prefix_bound\<close> and the state;
      \<^verbatim>\<open>ifPrint\<close> is not read by the source\<close>
  "compute_log_posterior env rs rules nrules labels p ifPrint length4bound g =
     (let g1 = init_pmf env nrules p g in
      bindE (deref (log_lambda_pmf g1)) (\<lambda>lam_pmf.
      bindE (deref (log_eta_pmf g1)) (\<lambda>eta_pmf.
      bindE (count_cards rules nrules) (\<lambda>cc.
      bindE (nth_e lam_pmf (n_rules rs - 1)) (\<lambda>lm.
      bindE (prefix_lambda_index rs p) (\<lambda>k.
      bindE (nth_e lam_pmf k) (\<lambda>lk.
      bindE (for_loop 0 (n_rules rs - 1) (prior_step rs rules eta_pmf length4bound)
             \<lparr>log_prior = dadd (Fin 0) lm, prefix_prior = dadd (Fin 0) lk,
                card_count = cc, norm_constant = eta_norm g1, printed = []\<rparr>) (\<lambda>ps.
      bindE (nth_e labels 0) (\<lambda>l0.
      bindE (nth_e labels 1) (\<lambda>l1.
      bindE (for_loop 0 (n_rules rs) (lik_step env rs l0 p length4bound)
             \<lparr>log_likelihood = Fin 0, prefix_log_likelihood = Fin 0,
                left0 = support l0, left1 = support l1\<rparr>) (\<lambda>ls.
      Inr (dadd (log_prior ps) (log_likelihood ls),
           dadd (prefix_prior ps) (prefix_log_likelihood ls),
           g1\<lparr>out := out g1 @ printed ps\<rparr>))))))))))))"

subsection \<open>ruleset_proposal\<close>

definition MOVEPROBS :: "double list" where
  "MOVEPROBS = map Fin
     [0, 1, 0,
      0, 1 / 2, 1 / 2,
      1 / 2, 0, 1 / 2,
      1 / 3, 1 / 3, 1 / 3,
      1 / 3, 1 / 3, 1 / 3]"

definition JUMPRATIOS :: "double list" where
  "JUMPRATIOS = map Fin
     [0, 1 / 2, 0,
      0, 2 / 3, 2,
      1, 0, 2 / 3,
      1, 3 / 2, 1,
      1, 1, 1]"

definition move_offset :: "ruleset \<Rightarrow> int \<Rightarrow> nat" where
  "move_offset rs nrules =
     (if n_rules rs = 1 then 0
      else if n_rules rs = 2 then 3
      else if n_rules rs = nrules - 1 then 6
      else if n_rules rs = nrules - 2 then 9
      else 12)"

partial_function (option) draw_index2 :: "int \<Rightarrow> int \<Rightarrow> int stream \<Rightarrow> (int \<times> int stream) option"
where
  \<comment> \<open>\<^verbatim>\<open>do { index2 = rand() % d; } while (index2 == index1);\<close> on the results of
      \<^verbatim>\<open>rand()\<close>; \<open>d\<close> is not zero where it is called\<close>
  "draw_index2 index1 d s =
     (let index2 = shd s smod d
      in if index2 = index1 then draw_index2 index1 d (stl s) else Some (index2, stl s))"

definition ruleset_proposal ::
  "env \<Rightarrow> ruleset \<Rightarrow> int \<Rightarrow> globals \<Rightarrow> error + (int \<times> int \<times> char \<times> double \<times> globals)"
where
  \<comment> \<open>the result is \<^verbatim>\<open>*ndx1\<close>, \<^verbatim>\<open>*ndx2\<close>, \<^verbatim>\<open>*stepchar\<close>, \<^verbatim>\<open>*jumpRatio\<close> and the state.
      In the last branch the source writes neither \<^verbatim>\<open>*stepchar\<close> nor the indices.\<close>
  "ruleset_proposal env rs nrules g =
     (let moveProbs = take 3 (drop (move_offset rs nrules) MOVEPROBS);
          jumpRatios = take 3 (drop (move_offset rs nrules) JUMPRATIOS);
          (r, g1) = c_rand g;
          u = ddiv (d_of_int r) (d_of_int RAND_MAX)
      in if dlt u (moveProbs ! 0) then
           (let (r1, g2) = c_rand g1 in
            bindE (c_rem r1 (n_rules rs - 1)) (\<lambda>index1.
            case draw_index2 index1 (n_rules rs - 1) (g_rand g2) of
              None \<Rightarrow> Inl NonTermination
            | Some (index2, s') \<Rightarrow>
                Inr (index1, index2, CHR ''S'', jumpRatios ! 0, g2\<lparr>g_rand := s'\<rparr>)))
         else if dlt u (dadd (moveProbs ! 0) (moveProbs ! 1)) then
           bindE (pick_random_rule env nrules rs g1) (\<lambda>(index1, g2).
           (let (r2, g3) = c_rand g2 in
            bindE (c_rem r2 (n_rules rs)) (\<lambda>index2.
            Inr (index1, index2, CHR ''A'',
                 dmul (jumpRatios ! 1) (d_of_int (nrules - 1 - n_rules rs)), g3))))
         else if dlt u (dadd (dadd (moveProbs ! 0) (moveProbs ! 1)) (moveProbs ! 2)) then
           (let (r1, g2) = c_rand g1 in
            bindE (c_rem r1 (n_rules rs - 1)) (\<lambda>index1.
            Inr (index1, 0, CHR ''D'',
                 dmul (jumpRatios ! 2) (d_of_int (nrules - n_rules rs)), g2)))
         else Inl Uninitialised)"

subsection \<open>The acceptance predicates and propose\<close>

type_synonym accept_func =
  "double \<Rightarrow> double \<Rightarrow> double \<Rightarrow> double \<Rightarrow> double \<Rightarrow> globals \<Rightarrow> bool \<times> globals"

definition uniform_draw :: "int \<Rightarrow> double" where
  \<comment> \<open>\<^verbatim>\<open>random() / (float)RAND_MAX\<close>. The source divides in \<^verbatim>\<open>float\<close>: the conversion
      rounds \<^verbatim>\<open>RAND_MAX\<close> to \<open>2^31\<close> and the result of \<^verbatim>\<open>random()\<close> to 24 bits. As for
      every double, the rounding is not modelled: the quotient is that of the integers.\<close>
  "uniform_draw r = ddiv (d_of_int r) (d_of_int RAND_MAX)"

definition mcmc_accepts :: accept_func where
  \<comment> \<open>\<^verbatim>\<open>&&\<close> does not evaluate its right side, and so does not call \<^verbatim>\<open>random()\<close>,
      when its left side is false\<close>
  "mcmc_accepts new_log_post old_log_post prefix_bound max_log_post extra g =
     (if dgt prefix_bound max_log_post then
        (let (r, g') = c_random g
         in (dlt (dlog (uniform_draw r))
               (dadd (dsub new_log_post old_log_post) (dlog extra)), g'))
      else (False, g))"

definition sa_accepts :: accept_func where
  "sa_accepts new_log_post old_log_post prefix_bound max_log_post extra g =
     (if dgt prefix_bound max_log_post then
        (if dgt new_log_post old_log_post then (True, g)
         else
           (let (r, g') = c_random g
            in (dlt (dlog (uniform_draw r))
                  (ddiv (dsub new_log_post old_log_post) extra), g')))
      else (False, g))"

datatype extra_ptr = Jump_prob | Own double

text \<open>
  The argument \<^verbatim>\<open>extra\<close> of \<^verbatim>\<open>propose\<close> is a pointer: \<^verbatim>\<open>run_mcmc\<close> passes the address of
  the very variable that \<^verbatim>\<open>jump_prob\<close> points to (\<open>Jump_prob\<close>), so that the predicate
  reads the jump ratio that \<^verbatim>\<open>ruleset_proposal\<close> has just written;
  \<^verbatim>\<open>run_simulated_annealing\<close> passes the address of its own \<^verbatim>\<open>tk\<close> (\<open>Own tk\<close>).
  \<^verbatim>\<open>propose\<close> never reads \<^verbatim>\<open>*jump_prob\<close> before \<^verbatim>\<open>ruleset_proposal\<close> writes it, so the
  model takes no value for it.
\<close>

definition propose_eval ::
  "env \<Rightarrow> ruleset \<Rightarrow> rule list \<Rightarrow> rule list \<Rightarrow> int \<Rightarrow> params \<Rightarrow> globals
     \<Rightarrow> error + (ruleset \<times> double \<times> double \<times> double \<times> globals)"
where
  \<comment> \<open>\<^verbatim>\<open>propose\<close> up to the call of \<^verbatim>\<open>compute_log_posterior\<close>: the result is \<^verbatim>\<open>rs_new\<close>,
      \<^verbatim>\<open>*jump_prob\<close>, \<^verbatim>\<open>new_log_post\<close>, \<^verbatim>\<open>prefix_bound\<close> and the state. Where the source
      returns NULL the model gives the failure.\<close>
  "propose_eval env rs rules labels nrules p g =
     bindE (ruleset_copy env rs) (\<lambda>rs_new.
     bindE (ruleset_proposal env rs_new nrules g) (\<lambda>(ndx1, ndx2, stepchar, jump_prob, g1).
     bindE
       (if stepchar = CHR ''A'' then
          bindE (ruleset_add env rules nrules rs_new ndx1 ndx2) (\<lambda>rs_new'.
          Inr (rs_new', ndx2, g1\<lparr>n_add := n_add g1 + 1\<rparr>))
        else if stepchar = CHR ''D'' then
          Inr (ruleset_delete env rules nrules rs_new ndx1, ndx1,
               g1\<lparr>n_delete := n_delete g1 + 1\<rparr>)
        else if stepchar = CHR ''S'' then
          Inr (ruleset_swap_any env rs_new ndx1 ndx2 rules, ndx1,
               g1\<lparr>n_swap := n_swap g1 + 1\<rparr>)
        else Inl Uninitialised)
       (\<lambda>(rs_new', change_ndx, g2).
     bindE (compute_log_posterior env rs_new' rules nrules labels p 0 change_ndx g2)
       (\<lambda>(new_log_post, prefix_bound, g3).
     Inr (rs_new', jump_prob, new_log_post, prefix_bound, g3)))))"

definition propose ::
  "env \<Rightarrow> ruleset \<Rightarrow> rule list \<Rightarrow> rule list \<Rightarrow> int \<Rightarrow> double \<Rightarrow> double \<Rightarrow> int \<Rightarrow> extra_ptr
     \<Rightarrow> params \<Rightarrow> accept_func \<Rightarrow> globals
     \<Rightarrow> error + (ruleset \<times> double \<times> double \<times> int \<times> globals)"
where
  \<comment> \<open>the result is the rule list returned, \<^verbatim>\<open>*jump_prob\<close>, \<^verbatim>\<open>*ret_log_post\<close>, \<^verbatim>\<open>*cnt\<close>
      and the state\<close>
  "propose env rs rules labels nrules ret_log_post max_log_post cnt extra p accept_func g =
     bindE (propose_eval env rs rules labels nrules p g)
       (\<lambda>(rs_new, jump_prob, new_log_post, prefix_bound, g1).
     (let cnt' = (if dlt prefix_bound max_log_post then cnt + 1 else cnt);
          ex = (case extra of Jump_prob \<Rightarrow> jump_prob | Own v \<Rightarrow> v);
          (accepted, g2) = accept_func new_log_post ret_log_post prefix_bound max_log_post ex g1
      in if accepted then Inr (rs_new, jump_prob, new_log_post, cnt', g2)
         else Inr (rs, jump_prob, ret_log_post, cnt', g2)))"

subsection \<open>get_theta\<close>

definition get_theta ::
  "env \<Rightarrow> ruleset \<Rightarrow> rule list \<Rightarrow> rule list \<Rightarrow> params \<Rightarrow> error + double list ptr"
where
  \<comment> \<open>the result is NULL when the allocation of \<^verbatim>\<open>theta\<close> fails; the prints guarded by
      \<^verbatim>\<open>debug\<close> are left out, and with them the only reads of \<^verbatim>\<open>threshold\<close>\<close>
  "get_theta env rs rules labels p =
     (if \<not> malloc_theta env then Inr Null
      else
        bindE
          (for_loop 0 (n_rules rs)
             (\<lambda>j theta.
                bindE (nth_e (rs_rules rs) j) (\<lambda>ent.
                bindE (nth_e labels 0) (\<lambda>l0.
                (let n0 = snd (rule_vand env (captures ent) (truthtable l0) (n_samples rs));
                     n1 = ncaptured ent - n0
                 in Inr (theta @
                      [ddiv (dmul (dadd (d_of_int n1) (snd (alpha p))) (Fin 1))
                         (dadd (dadd (d_of_int (n1 + n0)) (fst (alpha p))) (snd (alpha p)))])))))
             [])
          (\<lambda>theta. Inr (Ptr theta)))"

subsection \<open>run_mcmc\<close>

partial_function (option) mcmc_init ::
  "env \<Rightarrow> int \<Rightarrow> int \<Rightarrow> int \<Rightarrow> rule list \<Rightarrow> rule list \<Rightarrow> params \<Rightarrow> double
     \<Rightarrow> double \<Rightarrow> ruleset ptr \<Rightarrow> double \<Rightarrow> globals
     \<Rightarrow> (error + (ruleset ptr \<times> double \<times> globals)) option"
where
  \<comment> \<open>\<^verbatim>\<open>while (prefix_bound < v_star)\<close>: draw initial rule lists until one has a prefix
      bound that reaches \<open>v_star\<close>\<close>
  "mcmc_init env init_size nsamples nrules rules labels p v_star prefix_bound rs log_post_rs g =
     (if dlt prefix_bound v_star then
        (case create_random_ruleset env init_size nsamples nrules rules g of
           Inl e \<Rightarrow> Some (Inl e)
         | Inr (rs', g1) \<Rightarrow>
             (case compute_log_posterior env rs' rules nrules labels p 0 0 g1 of
                Inl e \<Rightarrow> Some (Inl e)
              | Inr (log_post_rs', prefix_bound', g2) \<Rightarrow>
                  mcmc_init env init_size nsamples nrules rules labels p v_star
                    prefix_bound' (Ptr rs') log_post_rs' g2))
      else Some (Inr (rs, log_post_rs, g)))"

record mcmc_state =
  m_rs :: ruleset
  m_log_post_rs :: double
  m_rs_idarray :: "int list"
  m_len :: int
  m_nsuccessful_rej :: int
  m_max_log_posterior :: double
  m_g :: globals

definition mcmc_step ::
  "env \<Rightarrow> rule list \<Rightarrow> rule list \<Rightarrow> int \<Rightarrow> params \<Rightarrow> mcmc_state \<Rightarrow> error + mcmc_state"
where
  \<comment> \<open>the body of the loop over the \<open>iters\<close> proposals\<close>
  "mcmc_step env rules labels nrules p st =
     bindE
       (propose env (m_rs st) rules labels nrules (m_log_post_rs st) (m_max_log_posterior st)
          (m_nsuccessful_rej st) Jump_prob p mcmc_accepts (m_g st))
       (\<lambda>(rs', jump_prob, log_post_rs, cnt, g).
     (if dgt log_post_rs (m_max_log_posterior st) then
        Inr (st\<lparr>m_rs := rs', m_log_post_rs := log_post_rs, m_nsuccessful_rej := cnt, m_g := g,
                 m_rs_idarray := ruleset_backup env rs',
                 m_max_log_posterior := log_post_rs,
                 m_len := n_rules rs'\<rparr>)
      else
        Inr (st\<lparr>m_rs := rs', m_log_post_rs := log_post_rs, m_nsuccessful_rej := cnt,
                 m_g := g\<rparr>)))"

definition mcmc_start ::
  "env \<Rightarrow> int \<Rightarrow> int \<Rightarrow> int \<Rightarrow> rule list \<Rightarrow> rule list \<Rightarrow> params \<Rightarrow> double \<Rightarrow> globals
     \<Rightarrow> error + mcmc_state"
where
  \<comment> \<open>\<^verbatim>\<open>run_mcmc\<close> up to its loop over the proposals: the initial rule list is the best so
      far\<close>
  "mcmc_start env init_size nsamples nrules rules labels p v_star g =
     (case mcmc_init env init_size nsamples nrules rules labels p v_star
             (Fin (- (10 ^ 10))) Null (Fin 0) (g\<lparr>n_add := 0, n_delete := 0, n_swap := 0\<rparr>) of
        None \<Rightarrow> Inl NonTermination
      | Some r \<Rightarrow>
          bindE r (\<lambda>(rs_ptr, log_post_rs, g1).
          bindE (deref rs_ptr) (\<lambda>rs0.
          Inr \<lparr>m_rs = rs0, m_log_post_rs = log_post_rs,
               m_rs_idarray = ruleset_backup env rs0, m_len = n_rules rs0,
               m_nsuccessful_rej = 0, m_max_log_posterior = log_post_rs, m_g = g1\<rparr>)))"

definition run_mcmc ::
  "env \<Rightarrow> int \<Rightarrow> int \<Rightarrow> int \<Rightarrow> int \<Rightarrow> rule list \<Rightarrow> rule list \<Rightarrow> params \<Rightarrow> double \<Rightarrow> globals
     \<Rightarrow> error + (ruleset \<times> globals)"
where
  "run_mcmc env iters init_size nsamples nrules rules labels p v_star g =
     bindE (mcmc_start env init_size nsamples nrules rules labels p v_star g) (\<lambda>st0.
     bindE (for_loop 0 iters (\<lambda>i. mcmc_step env rules labels nrules p) st0) (\<lambda>st.
     bindE (ruleset_init env (m_len st) nsamples (m_rs_idarray st) rules) (\<lambda>rs'.
     Inr (rs', m_g st))))"

subsection \<open>train\<close>

record chain_state =
  c_rs :: ruleset
  c_max_pos :: double
  c_destroyed :: "(ruleset \<times> double) list"
  c_g :: globals

text \<open>
  \<open>c_destroyed\<close> lists what the loop over the chains has handed to
  \<^verbatim>\<open>ruleset_destroy\<close>: the final rule lists of the chains that were not kept, each with
  the log posterior that \<^verbatim>\<open>train\<close> computed for it.
\<close>

definition train_step :: "env \<Rightarrow> data \<Rightarrow> params \<Rightarrow> chain_state \<Rightarrow> error + chain_state" where
  \<comment> \<open>the body of the loop over the chains after the first\<close>
  "train_step env train_data p st =
     bindE
       (run_mcmc env (p_iters p) (p_init_size p) (d_nsamples train_data) (d_nrules train_data)
          (d_rules train_data) (d_labels train_data) p (c_max_pos st) (c_g st))
       (\<lambda>(rs_temp, g1).
     bindE
       (compute_log_posterior env rs_temp (d_rules train_data) (d_nrules train_data)
          (d_labels train_data) p 1 (- 1) g1)
       (\<lambda>(pos_temp, null_bound, g2).
     (if dge pos_temp (c_max_pos st) then
        Inr (st\<lparr>c_rs := rs_temp, c_max_pos := pos_temp,
                 c_destroyed := c_destroyed st @ [(c_rs st, c_max_pos st)], c_g := g2\<rparr>)
      else
        Inr (st\<lparr>c_destroyed := c_destroyed st @ [(rs_temp, pos_temp)], c_g := g2\<rparr>))))"

definition train_chains :: "env \<Rightarrow> data \<Rightarrow> params \<Rightarrow> globals \<Rightarrow> error + chain_state" where
  \<comment> \<open>the first chain and the loop over the others\<close>
  "train_chains env train_data p g =
     bindE
       (run_mcmc env (p_iters p) (p_init_size p) (d_nsamples train_data) (d_nrules train_data)
          (d_rules train_data) (d_labels train_data) p (Fin (- (10 ^ 9))) g)
       (\<lambda>(rs0, g1).
     bindE
       (compute_log_posterior env rs0 (d_rules train_data) (d_nrules train_data)
          (d_labels train_data) p 1 (- 1) g1)
       (\<lambda>(max_pos, null_bound, g2).
     for_loop 1 (nchain p) (\<lambda>chain. train_step env train_data p)
       \<lparr>c_rs = rs0, c_max_pos = max_pos, c_destroyed = [], c_g = g2\<rparr>))"

definition train :: "env \<Rightarrow> data \<Rightarrow> int \<Rightarrow> int \<Rightarrow> params \<Rightarrow> globals \<Rightarrow> error + (pred_model \<times> globals)"
where
  \<comment> \<open>\<^verbatim>\<open>initialization\<close> and \<^verbatim>\<open>method\<close> are not read by the source; where the source
      returns NULL the model gives \<open>OutOfMemory\<close>\<close>
  "train env train_data initialization method p g =
     (if \<not> calloc_pred_model env then Inl OutOfMemory
      else
        bindE (train_chains env train_data p g) (\<lambda>st.
        bindE (get_theta env (c_rs st) (d_rules train_data) (d_labels train_data) p) (\<lambda>th.
        Inr (\<lparr>pm_theta = th, pm_rs = c_rs st\<rparr>,
             (c_g st)\<lparr>log_lambda_pmf := Freed, log_eta_pmf := Freed\<rparr>))))"

subsection \<open>The cooling schedule of run_simulated_annealing\<close>

definition cooling_step :: "int \<Rightarrow> double list \<times> double list \<Rightarrow> error + double list \<times> double list"
where
  \<comment> \<open>the body of the loop over \<open>i\<close>; the state is \<^verbatim>\<open>tmp\<close> and the part of \<^verbatim>\<open>T\<close> written
      so far, whose length is \<^verbatim>\<open>ntimepoints\<close>. \<^verbatim>\<open>T\<close> has room for 100000 entries.\<close>
  "cooling_step i st =
     (case st of (tmp, T) \<Rightarrow>
        bindE (nth_e tmp (i - 1)) (\<lambda>prev.
        (let cur = dadd prev (dexp (dmul (Fin (1 / 4)) (d_of_int (i + 1))))
         in if \<not> (0 \<le> i \<and> i < int (length tmp)) then Inl OutOfBounds
            else
              bindE (d_to_int prev) (\<lambda>lo.
              bindE (d_to_int cur) (\<lambda>hi.
              bindE
                (for_loop lo hi
                   (\<lambda>j T'. if length T' < 100000
                           then Inr (T' @ [ddiv (Fin 1) (d_of_int (i + 1))])
                           else Inl OutOfBounds)
                   T)
                (\<lambda>T'. Inr (tmp[nat i := cur], T')))))))"

definition cooling_schedule :: "error + double list" where
  \<comment> \<open>\<^verbatim>\<open>T[0 .. ntimepoints - 1]\<close> after the pre-computation; the entries of \<^verbatim>\<open>tmp\<close> that
      are not yet written are never read\<close>
  "cooling_schedule =
     bindE (for_loop 1 28 cooling_step (Fin 1 # replicate 49 (Fin 0), [])) (\<lambda>(tmp, T). Inr T)"

text \<open>
  The values that the loop gives to \<^verbatim>\<open>tmp\<close>, and the part of \<^verbatim>\<open>T\<close> that it has written
  after the iteration \<open>i = n\<close>, in closed form: the temperature \<open>1 / (m + 1)\<close> is written
  \<open>\<lfloor>tmp[m]\<rfloor> - \<lfloor>tmp[m - 1]\<rfloor>\<close> times. That the loop computes them is proved below.
\<close>

fun tmp_val :: "nat \<Rightarrow> real" where
  "tmp_val 0 = 1"
| "tmp_val (Suc n) = tmp_val n + exp (1 / 4 * (real n + 2))"

definition cooling_T :: "nat \<Rightarrow> double list" where
  "cooling_T n =
     concat (map (\<lambda>m. replicate (nat (\<lfloor>tmp_val m\<rfloor> - \<lfloor>tmp_val (m - 1)\<rfloor>)) (Fin (1 / (real m + 1))))
       [1..<Suc n])"

subsection \<open>An implementation of the libraries\<close>

text \<open>
  A concrete \<open>env\<close>, on which the functions above can be run. The rule list operations
  follow the specification of the rule list (sections 3 and 4.2): the captures of a
  position are the samples that its rule matches and no earlier position has captured.
\<close>

definition vand :: "bool list \<Rightarrow> bool list \<Rightarrow> int \<Rightarrow> bool list \<times> int" where
  \<comment> \<open>Modelled from the spec: \<^verbatim>\<open>rule_vand\<close> of rule.c is missing; the AND of two bit vectors
      and its population count (4.1)\<close>
  "vand a b n =
     (let c = map2 (\<and>) (take (nat n) a) (take (nat n) b) in (c, int (length (filter id c))))"

fun cascade :: "rule list \<Rightarrow> bool list \<Rightarrow> int list \<Rightarrow> ruleset_entry list" where
  \<comment> \<open>Modelled from the spec: the captures of rule.c are missing; invariants I2 and I3
      (3): \<open>seen\<close> marks the samples captured by the earlier positions\<close>
  "cascade lib seen [] = []"
| "cascade lib seen (i # ids) =
     (let cap = map2 (\<lambda>t s. t \<and> \<not> s) (truthtable (lib ! nat i)) seen
      in \<lparr>rule_id = i, captures = cap, ncaptured = int (length (filter id cap))\<rparr>
           # cascade lib (map2 (\<or>) seen cap) ids)"

definition build :: "int \<Rightarrow> int list \<Rightarrow> rule list \<Rightarrow> ruleset" where
  \<comment> \<open>Modelled from the spec: \<^verbatim>\<open>ruleset_init\<close> of rule.c is missing; \<open>rebuild\<close> (4.2)\<close>
  "build n ids lib =
     \<lparr>n_rules = int (length ids), n_samples = n,
      rs_rules = cascade lib (replicate (nat n) False) ids\<rparr>"

definition ids_of :: "ruleset \<Rightarrow> int list" where
  \<comment> \<open>Modelled from the spec: \<^verbatim>\<open>ruleset_backup\<close> of rule.c is missing; \<open>backup\<close> (4.2)\<close>
  "ids_of r = map rule_id (rs_rules r)"

partial_function (option) pick_loop :: "int \<Rightarrow> int list \<Rightarrow> int stream \<Rightarrow> (int \<times> int stream) option"
where
  \<comment> \<open>Modelled from the spec: \<^verbatim>\<open>pick_random_rule\<close> of rule.c is missing; rejection
      sampling over \<open>[0, nrules)\<close> of a rule that is not in the list (4.4)\<close>
  "pick_loop n ids s =
     (let r = shd s mod n
      in if r \<in> set ids then pick_loop n ids (stl s) else Some (r, stl s))"

definition pick :: "int \<Rightarrow> ruleset \<Rightarrow> globals \<Rightarrow> error + (int \<times> globals)" where
  "pick n r g =
     (case pick_loop n (ids_of r) (g_rand g) of
        None \<Rightarrow> Inl NonTermination
      | Some (i, s) \<Rightarrow> Inr (i, g\<lparr>g_rand := s\<rparr>))"

function create_loop ::
  "int \<Rightarrow> int \<Rightarrow> int \<Rightarrow> rule list \<Rightarrow> int list \<Rightarrow> globals \<Rightarrow> error + (ruleset \<times> globals)"
where
  \<comment> \<open>Modelled from the spec: \<^verbatim>\<open>create_random_ruleset\<close> of rule.c is missing; \<open>k\<close> distinct
      rules drawn in front of the default rule, which is taken to be rule 0 (4.2)\<close>
  "create_loop k n nr lib ids g =
     (if 0 < k then
        bindE (pick nr (build n ids lib) g) (\<lambda>(i, g').
        create_loop (k - 1) n nr lib (i # ids) g')
      else Inr (build n ids lib, g))"
  by pat_completeness auto
termination
  by (relation "measure (\<lambda>(k, n, nr, lib, ids, g). nat k)") auto

declare create_loop.simps [simp del]

definition poisson_pdf :: "int \<Rightarrow> double \<Rightarrow> double" where
  \<comment> \<open>the probability mass \<open>mu ^ k / k! * exp (- mu)\<close> of the GSL manual, for \<open>mu > 0\<close>\<close>
  "poisson_pdf k mu =
     (case mu of
        Fin m \<Rightarrow> if 0 < m \<and> 0 \<le> k then Fin (m ^ nat k / fact (nat k) * exp (- m)) else NaN
      | _ \<Rightarrow> NaN)"

definition poisson_P :: "int \<Rightarrow> double \<Rightarrow> double" where
  \<comment> \<open>the cumulative distribution \<open>P(k)\<close> of the GSL manual, for \<open>mu > 0\<close>\<close>
  "poisson_P k mu =
     (case mu of
        Fin m \<Rightarrow>
          if 0 < m \<and> 0 \<le> k then Fin ((\<Sum>j\<le>nat k. m ^ j / fact j) * exp (- m)) else NaN
      | _ \<Rightarrow> NaN)"

definition lngamma_int :: "double \<Rightarrow> double" where
  \<comment> \<open>\<open>ln (Gamma x)\<close> at the positive integers, where it is \<open>ln ((x - 1)!)\<close>; these are
      its only arguments when \<open>alpha = (1, 1)\<close>. At the other arguments this stand-in
      gives a NaN.\<close>
  "lngamma_int d =
     (case d of
        Fin x \<Rightarrow> if 1 \<le> x \<and> x = of_int \<lfloor>x\<rfloor> then Fin (ln (fact (nat \<lfloor>x\<rfloor> - 1))) else NaN
      | PInf \<Rightarrow> PInf
      | _ \<Rightarrow> NaN)"

definition lib_env :: env where
  "lib_env =
     \<lparr>gsl_ran_poisson_pdf = poisson_pdf,
      gsl_cdf_poisson_P = poisson_P,
      gsl_sf_lngamma = lngamma_int,
      rule_vand = vand,
      ruleset_copy = Inr,
      ruleset_add = (\<lambda>lib nr r i pos.
        Inr (build (n_samples r)
               (take (nat pos) (ids_of r) @ [i] @ drop (nat pos) (ids_of r)) lib)),
      ruleset_delete = (\<lambda>lib nr r pos.
        build (n_samples r) (take (nat pos) (ids_of r) @ drop (nat pos + 1) (ids_of r)) lib),
      ruleset_swap_any = (\<lambda>r i j lib.
        build (n_samples r)
          ((ids_of r)[nat i := ids_of r ! nat j, nat j := ids_of r ! nat i]) lib),
      ruleset_backup = ids_of,
      ruleset_init = (\<lambda>len n ids lib. Inr (build n (take (nat len) ids) lib)),
      pick_random_rule = pick,
      create_random_ruleset = (\<lambda>k n nr lib g. create_loop k n nr lib [0] g),
      calloc_pred_model = True,
      malloc_theta = True\<rparr>"

subsection \<open>A small training set\<close>

text \<open>
  The toy partition of the specification (8, scenario 1), with one more rule: four
  samples, the labels \<open>1100\<close> and \<open>0011\<close>, the default rule and the rules \<open>1010\<close>,
  \<open>0101\<close> and \<open>0110\<close>.
\<close>

definition start :: "int stream \<Rightarrow> int stream \<Rightarrow> globals" where
  \<comment> \<open>the state when the process starts: the tables are NULL, the statics are zero\<close>
  "start r1 r2 =
     \<lparr>g_rand = r1, g_random = r2, log_lambda_pmf = Null, log_eta_pmf = Null,
      eta_norm = Fin 0, n_add = 0, n_delete = 0, n_swap = 0, out = []\<rparr>"

definition toy_rules :: "rule list" where
  "toy_rules =
     [\<lparr>cardinality = 0, truthtable = [True, True, True, True], support = 4\<rparr>,
      \<lparr>cardinality = 1, truthtable = [True, False, True, False], support = 2\<rparr>,
      \<lparr>cardinality = 1, truthtable = [False, True, False, True], support = 2\<rparr>,
      \<lparr>cardinality = 2, truthtable = [False, True, True, False], support = 2\<rparr>]"

definition toy_labels :: "rule list" where
  "toy_labels =
     [\<lparr>cardinality = 0, truthtable = [True, True, False, False], support = 2\<rparr>,
      \<lparr>cardinality = 0, truthtable = [False, False, True, True], support = 2\<rparr>]"

definition toy_params :: params where
  "toy_params =
     \<lparr>lambda = Fin 1, eta = Fin 1, alpha = (Fin 1, Fin 1), threshold = Fin (1 / 2),
      p_iters = 0, p_init_size = 1, nchain = 1\<rparr>"

definition toy_data :: data where
  "toy_data = \<lparr>d_nsamples = 4, d_nrules = 4, d_rules = toy_rules, d_labels = toy_labels\<rparr>"

text \<open>
  A library in which a rule other than the default rule has cardinality 0, the only one
  of that cardinality.
\<close>

definition odd_rules :: "rule list" where
  "odd_rules =
     [\<lparr>cardinality = 1, truthtable = [True, True, True, True], support = 4\<rparr>,
      \<lparr>cardinality = 0, truthtable = [True, False, True, False], support = 2\<rparr>,
      \<lparr>cardinality = 1, truthtable = [False, True, False, True], support = 2\<rparr>]"

subsection \<open>The invariant of the loop over the chains\<close>

definition best_so_far :: "env \<Rightarrow> data \<Rightarrow> params \<Rightarrow> chain_state \<Rightarrow> bool" where
  \<comment> \<open>\<open>c_max_pos\<close> is the log posterior of the list that is kept, and no list that was
      destroyed has a greater one\<close>
  "best_so_far env train_data p st \<longleftrightarrow>
     (\<exists>g0 nb g1. compute_log_posterior env (c_rs st) (d_rules train_data) (d_nrules train_data)
         (d_labels train_data) p 1 (- 1) g0 = Inr (c_max_pos st, nb, g1))
   \<and> (\<forall>(r, pos) \<in> set (c_destroyed st).
         (\<exists>g0 nb g1. compute_log_posterior env r (d_rules train_data) (d_nrules train_data)
            (d_labels train_data) p 1 (- 1) g0 = Inr (pos, nb, g1))
       \<and> \<not> dgt pos (c_max_pos st)
       \<and> (pos \<noteq> NaN \<longrightarrow> dge (c_max_pos st) pos))"

section \<open>Basic facts\<close>

lemma bindE_Inl [simp]: "bindE (Inl e) f = Inl e"
  by (simp add: bindE_def)

lemma bindE_Inr [simp]: "bindE (Inr x) f = f x"
  by (simp add: bindE_def)

lemma bindE_eq_Inr: "bindE m f = Inr y \<longleftrightarrow> (\<exists>x. m = Inr x \<and> f x = Inr y)"
  by (cases m) simp_all

lemma dlt_irrefl [simp]: "\<not> dlt a a"
  by (cases a) simp_all

lemma dlt_asym: "dlt a b \<Longrightarrow> \<not> dlt b a"
  by (cases a; cases b) simp_all

lemma dlt_trans: "dlt a b \<Longrightarrow> dlt b c \<Longrightarrow> dlt a c"
  by (cases a; cases b; cases c) simp_all

lemma dadd_zero_left [simp]: "dadd (Fin 0) x = x"
  by (cases x) simp_all

lemma dadd_zero_right [simp]: "dadd x (Fin 0) = x"
  by (cases x) simp_all

text \<open>A property that every iteration of a loop keeps holds when the loop ends.\<close>

lemma for_loop_invariant:
  assumes "for_loop i n body s = Inr s'"
    and "P s"
    and "\<And>j t t'. i \<le> j \<Longrightarrow> j < n \<Longrightarrow> P t \<Longrightarrow> body j t = Inr t' \<Longrightarrow> P t'"
  shows "P s'"
  using assms
proof (induction i n body s rule: for_loop.induct)
  case (1 i n body s)
  show ?case
  proof (cases "i < n")
    case True
    with "1.prems"(1) obtain t where t: "body i s = Inr t"
      and rest: "for_loop (i + 1) n body t = Inr s'"
      by (subst (asm) for_loop.simps) (auto simp: bindE_eq_Inr)
    have "P t" using "1.prems"(3)[OF _ True "1.prems"(2) t] by simp
    have step: "P u'" if "i + 1 \<le> j" "j < n" "P u" "body j u = Inr u'" for j u u'
      using "1.prems"(3)[of j u u'] that by simp
    show ?thesis
      by (rule "1.IH"[OF True rest \<open>P t\<close>]) (rule step)
  next
    case False
    with "1.prems"(1) have "s' = s" by (subst (asm) for_loop.simps) simp
    with "1.prems"(2) show ?thesis by simp
  qed
qed

text \<open>The equations that run the model on the small training set.\<close>

lemmas toy_simps =
  compute_log_posterior_def init_pmf_def start_def toy_params_def lib_env_def
  poisson_pdf_def poisson_P_def MAX_RULE_CARDINALITY_def count_cards_def toy_rules_def
  for_loop.simps nth_e_def deref_def build_def prefix_lambda_index_def d_of_int_def dgt_def
  d_to_int_def prior_step_def lik_step_def toy_labels_def vand_def lngamma_int_def dsub_def
  ruleset_proposal_def move_offset_def MOVEPROBS_def JUMPRATIOS_def c_rand_def
  RAND_MAX_def c_rem_def signed_modulo_int_def ids_of_def propose_eval_def

text \<open>
  Deleting the only rule of the list \<open>[rule 1, default]\<close>: the first result of
  \<^verbatim>\<open>rand()\<close> selects the deletion, the second the position.
\<close>

lemma toy_delete_eval:
  "propose_eval lib_env (build 4 [1, 0] toy_rules) toy_rules toy_labels 4 toy_params
     (start (1073741824 ## sconst 0) (sconst 0)) =
   Inr (build 4 [0] toy_rules, Fin 4, Fin (2 * ln 2 - ln 120 - 1), Fin (2 * ln 2 - ln 120 - 1),
     \<lparr>g_rand = sconst 0, g_random = sconst 0,
      log_lambda_pmf = Ptr (map (\<lambda>i. dlog (poisson_pdf i (Fin 1))) [0..3]),
      log_eta_pmf = Ptr (map (\<lambda>i. dlog (poisson_pdf i (Fin 1))) [0..10]),
      eta_norm = Fin (6235301 * exp (- 1) / 3628800), n_add = 0,
      n_delete = 1, n_swap = 0, out = []\<rparr>)"
  by (simp add: toy_simps eval_nat_numeral Let_def)

lemma toy_bound_negative: "2 * ln 2 - ln 120 - 1 < (0::real)"
proof -
  have "ln (2::real) < ln 120" by simp
  moreover have "ln (2::real) \<le> 1" using ln_add_one_self_le_self [of "1::real"] by simp
  ultimately show ?thesis by linarith
qed

section \<open>The acceptance predicates\<close>



section \<open>propose\<close>

text \<open>
  Claim C1. When the proposal that \<^verbatim>\<open>propose\<close> has evaluated has
  \<open>prefix_bound < max_log_post\<close>, \<^verbatim>\<open>propose\<close> adds exactly one to the reject counter and
  rejects the proposal: it returns the old rule list and leaves \<^verbatim>\<open>*ret_log_post\<close> as it
  was, whether the predicate is \<^verbatim>\<open>mcmc_accepts\<close> or \<^verbatim>\<open>sa_accepts\<close>. Neither predicate
  draws a random number then.
\<close>

theorem propose_prefix_bound_rejects:
  assumes "propose_eval env rs rules labels nrules p g =
             Inr (rs_new, jump_prob, new_log_post, prefix_bound, g1)"
    and "dlt prefix_bound max_log_post"
    and "accept_func = mcmc_accepts \<or> accept_func = sa_accepts"
  shows "propose env rs rules labels nrules ret_log_post max_log_post cnt extra p accept_func g =
           Inr (rs, jump_prob, ret_log_post, cnt + 1, g1)"
proof -
  have "\<not> dgt prefix_bound max_log_post"
    using assms(2) by (simp add: dgt_def dlt_asym)
  then have "accept_func new_log_post ret_log_post prefix_bound max_log_post ex g1 = (False, g1)"
    for ex
    using assms(3) by (auto simp: mcmc_accepts_def sa_accepts_def)
  then show ?thesis
    using assms(1,2) by (simp add: propose_def)
qed

theorem propose_prefix_bound_rejects_witness:
  "\<exists>g1. propose lib_env (build 4 [1, 0] toy_rules) toy_rules toy_labels 4 (Fin (- 7)) (Fin 0) 0
      Jump_prob toy_params sa_accepts (start (1073741824 ## sconst 0) (sconst 0)) =
    Inr (build 4 [1, 0] toy_rules, Fin 4, Fin (- 7), 1, g1)"
  using propose_prefix_bound_rejects
      [OF toy_delete_eval, of "Fin 0" sa_accepts "Fin (- 7)" 0 Jump_prob]
    toy_bound_negative
  by simp

section \<open>ruleset_proposal\<close>

lemma move_probs_table:
  "take 3 (drop (move_offset rs nrules) MOVEPROBS) =
     map Fin (if n_rules rs = 1 then [0, 1, 0]
              else if n_rules rs = 2 then [0, 1 / 2, 1 / 2]
              else if n_rules rs = nrules - 1 then [1 / 2, 0, 1 / 2]
              else [1 / 3, 1 / 3, 1 / 3])"
  by (simp add: move_offset_def MOVEPROBS_def)

lemma ruleset_proposal_stepchar:
  assumes "ruleset_proposal env rs nrules g = Inr (i1, i2, c, jr, g')"
    and "take 3 (drop (move_offset rs nrules) MOVEPROBS) = map Fin [pS, pA, pD]"
    and "x = real_of_int (shd (g_rand g)) / real_of_int RAND_MAX"
  shows "(c = CHR ''S'' \<longleftrightarrow> x < pS) \<and>
         (c = CHR ''A'' \<longleftrightarrow> pS \<le> x \<and> x < pS + pA) \<and>
         (c = CHR ''D'' \<longleftrightarrow> pS + pA \<le> x \<and> x < pS + pA + pD)"
proof -
  have u: "ddiv (d_of_int (shd (g_rand g))) (d_of_int RAND_MAX) = Fin x"
    using assms(3) by (simp add: d_of_int_def RAND_MAX_def)
  have "0 \<le> pA"
    using assms(2) by (simp add: move_probs_table split: if_splits)
  then show ?thesis
    using assms(1) unfolding ruleset_proposal_def assms(2) Let_def c_rand_def
    by (auto simp: u bindE_eq_Inr split: if_splits prod.splits option.splits)
qed



lemma swap_regime_three:
  assumes "1 \<le> n_rules rs"
    and "dlt (Fin 0) (take 3 (drop (move_offset rs nrules) MOVEPROBS) ! 0)"
  shows "3 \<le> n_rules rs"
  using assms by (simp add: move_probs_table split: if_splits)

lemma draw_index2_returns:
  "s !! k smod d \<noteq> index1 \<Longrightarrow> \<exists>r. draw_index2 index1 d s = Some r"
proof (induction k arbitrary: s)
  case 0
  then show ?case by (subst draw_index2.simps) simp
next
  case (Suc k)
  then have "\<exists>r. draw_index2 index1 d (stl s) = Some r" by simp
  then show ?case by (subst draw_index2.simps) (simp add: Let_def)
qed

lemma draw_index2_running:
  "(\<forall>j<k. s !! j smod d = index1) \<Longrightarrow> draw_index2 index1 d s = draw_index2 index1 d (sdrop k s)"
proof (induction k arbitrary: s)
  case 0
  then show ?case by simp
next
  case (Suc k)
  have "shd s smod d = index1" using Suc.prems by (metis snth.simps(1) zero_less_Suc)
  moreover have "\<forall>j<k. stl s !! j smod d = index1" using Suc.prems by auto
  ultimately show ?case
    using Suc.IH [of "stl s"] by (subst draw_index2.simps) (simp add: Let_def)
qed

lemma colliding_card:
  assumes "2 \<le> d"
  shows "card {r. 0 \<le> r \<and> r \<le> RAND_MAX \<and> r smod d = index1} < nat (RAND_MAX + 1)"
proof -
  let ?C = "{r. 0 \<le> r \<and> r \<le> RAND_MAX \<and> r smod d = index1}"
  have z: "(0::int) smod d = 0" and o: "(1::int) smod d = 1"
    using assms by (simp_all add: signed_modulo_int_def)
  have "?C \<subseteq> {0..RAND_MAX}" by auto
  moreover have "\<exists>r \<in> {0..RAND_MAX}. r \<notin> ?C"
  proof (cases "index1 = 0")
    case True
    then have "(1::int) \<notin> ?C" using o by simp
    then show ?thesis by (auto simp: RAND_MAX_def intro!: bexI [of _ 1])
  next
    case False
    then have "(0::int) \<notin> ?C" using z by simp
    then show ?thesis by (auto simp: RAND_MAX_def intro!: bexI [of _ 0])
  qed
  ultimately have "?C \<subset> {0..RAND_MAX}" by blast
  then have "card ?C < card {0..RAND_MAX}" by (rule psubset_card_mono [rotated]) simp
  then show ?thesis by (simp add: RAND_MAX_def)
qed

lemma colliding_vanishes:
  assumes "2 \<le> d"
  shows "(\<lambda>k. (real (card {r. 0 \<le> r \<and> r \<le> RAND_MAX \<and> r smod d = index1})
             / real (nat (RAND_MAX + 1))) ^ k) \<longlonglongrightarrow> 0"
proof (rule LIMSEQ_realpow_zero)
  show "0 \<le> real (card {r. 0 \<le> r \<and> r \<le> RAND_MAX \<and> r smod d = index1}) / real (nat (RAND_MAX + 1))"
    by simp
  have "0 < nat (RAND_MAX + 1)" by (simp add: RAND_MAX_def)
  then show "real (card {r. 0 \<le> r \<and> r \<le> RAND_MAX \<and> r smod d = index1}) / real (nat (RAND_MAX + 1)) < 1"
    using colliding_card [OF assms, of index1] by simp
qed

text \<open>
  Claim C9. In every regime in which \<^verbatim>\<open>ruleset_proposal\<close> selects the swap with positive
  probability, a rule list with \<open>n_rules \<ge> 1\<close> has \<open>n_rules \<ge> 3\<close>. So for every \<open>index1\<close>
  there is another index in \<open>[0, n_rules - 1)\<close>, and the loop that draws \<open>index2\<close> until it
  differs from \<open>index1\<close> returns at the first draw whose remainder differs. It returns with
  probability 1: it is still running after \<open>k\<close> draws only if all of them collide with
  \<open>index1\<close>, and the share of the values of \<^verbatim>\<open>rand()\<close> that collide, raised to the power
  \<open>k\<close>, tends to 0.
\<close>

theorem swap_loop_terminates:
  assumes "1 \<le> n_rules rs"
    and "dlt (Fin 0) (take 3 (drop (move_offset rs nrules) MOVEPROBS) ! 0)"
  shows "3 \<le> n_rules rs
    \<and> (\<forall>index1. \<exists>index2. 0 \<le> index2 \<and> index2 < n_rules rs - 1 \<and> index2 \<noteq> index1)
    \<and> (\<forall>index1 s k. s !! k smod (n_rules rs - 1) \<noteq> index1 \<longrightarrow>
          (\<exists>r. draw_index2 index1 (n_rules rs - 1) s = Some r))
    \<and> (\<forall>index1 s k. (\<forall>j<k. s !! j smod (n_rules rs - 1) = index1) \<longrightarrow>
          draw_index2 index1 (n_rules rs - 1) s =
          draw_index2 index1 (n_rules rs - 1) (sdrop k s))
    \<and> (\<forall>index1.
          (\<lambda>k. (real (card {r. 0 \<le> r \<and> r \<le> RAND_MAX \<and> r smod (n_rules rs - 1) = index1})
                 / real (nat (RAND_MAX + 1))) ^ k) \<longlonglongrightarrow> 0)"
proof -
  have three: "3 \<le> n_rules rs" by (rule swap_regime_three [OF assms])
  have two: "\<exists>index2. 0 \<le> index2 \<and> index2 < n_rules rs - 1 \<and> index2 \<noteq> index1" for index1
  proof (cases "index1 = 0")
    case True
    with three show ?thesis by (intro exI [of _ 1]) simp
  next
    case False
    with three show ?thesis by (intro exI [of _ 0]) simp
  qed
  have d: "2 \<le> n_rules rs - 1" using three by simp
  show ?thesis
    using three two draw_index2_returns draw_index2_running colliding_vanishes [OF d]
    by blast
qed

theorem swap_loop_terminates_witness:
  "3 \<le> n_rules (build 4 [1, 2, 0] toy_rules)
   \<and> (\<exists>index2. 0 \<le> index2 \<and> index2 < n_rules (build 4 [1, 2, 0] toy_rules) - 1 \<and> index2 \<noteq> 0)
   \<and> (\<exists>r. draw_index2 0 (n_rules (build 4 [1, 2, 0] toy_rules) - 1) (0 ## 1 ## sconst 0) = Some r)"
proof -
  let ?rs = "build 4 [1, 2, 0] toy_rules"
  have a: "1 \<le> n_rules ?rs" by (simp add: build_def)
  have b: "dlt (Fin 0) (take 3 (drop (move_offset ?rs 4) MOVEPROBS) ! 0)"
    by (simp add: move_offset_def build_def MOVEPROBS_def)
  have c: "(0 ## 1 ## sconst 0) !! 1 smod (n_rules ?rs - 1) \<noteq> (0::int)"
    by (simp add: build_def signed_modulo_int_def)
  from swap_loop_terminates [OF a b] c show ?thesis by blast
qed

section \<open>compute_log_posterior\<close>

lemma for_loop_error:
  assumes "for_loop i n body s = Inl e"
    and "\<And>j t e'. body j t = Inl e' \<Longrightarrow> Q e'"
  shows "Q e"
  using assms
proof (induction i n body s rule: for_loop.induct)
  case (1 i n body s)
  from "1.prems"(1) have lt: "i < n" by (subst (asm) for_loop.simps) (simp split: if_splits)
  show ?case
  proof (cases "body i s")
    case (Inl e')
    with "1.prems"(1) lt have "e' = e" by (subst (asm) for_loop.simps) simp
    with Inl "1.prems"(2) show ?thesis by blast
  next
    case (Inr t)
    with "1.prems"(1) lt have "for_loop (i + 1) n body t = Inl e"
      by (subst (asm) for_loop.simps) simp
    then show ?thesis by (rule "1.IH"[OF lt]) (rule "1.prems"(2))
  qed
qed

lemma nth_e_Inr: "nth_e xs i = Inr v \<longleftrightarrow> 0 \<le> i \<and> i < int (length xs) \<and> v = xs ! nat i"
  by (auto simp: nth_e_def)

lemma nth_e_Inl: "nth_e xs i = Inl e \<Longrightarrow> e = OutOfBounds"
  by (auto simp: nth_e_def split: if_splits)

lemma bindE_eq_Inl: "bindE m f = Inl e \<longleftrightarrow> (m = Inl e \<or> (\<exists>x. m = Inr x \<and> f x = Inl e))"
  by (cases m) simp_all

lemma count_cards_error: "count_cards rules nrules = Inl e \<Longrightarrow> e = OutOfBounds"
  unfolding count_cards_def
  by (erule for_loop_error) (auto simp: bindE_eq_Inl dest: nth_e_Inl)

lemma prefix_lambda_index_max:
  assumes "prefix_lambda_index rs p = Inr k" and "lambda p = Fin l" and "1 \<le> n_rules rs"
  shows "k = max (n_rules rs - 1) \<lfloor>l\<rfloor>"
proof (cases "l < of_int (n_rules rs - 1)")
  case True
  then have "\<lfloor>l\<rfloor> < n_rules rs - 1" by linarith
  with True assms show ?thesis
    by (simp add: prefix_lambda_index_def dgt_def d_of_int_def)
next
  case False
  then have ge: "of_int (n_rules rs - 1) \<le> l" by simp
  then have "n_rules rs - 1 \<le> \<lfloor>l\<rfloor>" by linarith
  moreover have "0 \<le> l" using ge assms(3) by (smt (verit) of_int_0_le_iff)
  ultimately show ?thesis
    using False assms
    by (auto simp: prefix_lambda_index_def dgt_def d_of_int_def d_to_int_def Let_def
        split: if_splits)
qed

lemma init_pmf_tables:
  assumes "log_lambda_pmf g = Null" and "0 \<le> nrules"
  shows "\<exists>tbl. log_lambda_pmf (init_pmf env nrules p g) = Ptr tbl \<and> int (length tbl) = nrules"
  using assms by (simp add: init_pmf_def)

lemma prior_loop_prefix:
  assumes "for_loop 0 n (prior_step rs rules eta_pmf length4bound) st = Inr st'"
    and "length4bound < 0"
  shows "prefix_prior st' = prefix_prior st"
  using assms(1)
proof (rule for_loop_invariant [where P = "\<lambda>t. prefix_prior t = prefix_prior st"])
  show "prefix_prior st = prefix_prior st" ..
next
  fix j t t'
  assume "0 \<le> j" "prefix_prior t = prefix_prior st"
    "prior_step rs rules eta_pmf length4bound j t = Inr t'"
  with assms(2) show "prefix_prior t' = prefix_prior st"
    by (auto simp: prior_step_def bindE_eq_Inr Let_def)
qed

lemma lik_loop_prefix:
  assumes "for_loop 0 n (lik_step env rs l0 p length4bound) st = Inr st'"
    and "length4bound < 0"
  shows "prefix_log_likelihood st' = prefix_log_likelihood st"
  using assms(1)
proof (rule for_loop_invariant [where P = "\<lambda>t. prefix_log_likelihood t = prefix_log_likelihood st"])
  show "prefix_log_likelihood st = prefix_log_likelihood st" ..
next
  fix j t t'
  assume "0 \<le> j" "prefix_log_likelihood t = prefix_log_likelihood st"
    "lik_step env rs l0 p length4bound j t = Inr t'"
  with assms(2) show "prefix_log_likelihood t' = prefix_log_likelihood st"
    by (auto simp: lik_step_def bindE_eq_Inr Let_def)
qed

text \<open>The rule list that holds the default rule only, scored as \<^verbatim>\<open>train\<close> scores it.\<close>

lemma toy_default_eval:
  "compute_log_posterior lib_env (build 4 [0] toy_rules) toy_rules 4 toy_labels toy_params 1 (- 1)
     (start (sconst 0) (sconst 0)) =
   Inr (Fin (ln 2 * 2 - ln 120 - 1), Fin (- 1),
     \<lparr>g_rand = sconst 0, g_random = sconst 0,
      log_lambda_pmf = Ptr (map (\<lambda>i. dlog (poisson_pdf i (Fin 1))) [0..3]),
      log_eta_pmf = Ptr (map (\<lambda>i. dlog (poisson_pdf i (Fin 1))) [0..10]),
      eta_norm = Fin (6235301 * exp (- 1) / 3628800), n_add = 0,
      n_delete = 0, n_swap = 0, out = []\<rparr>)"
  by (simp add: toy_simps eval_nat_numeral Let_def)



text \<open>
  Claim C10. The lambda table that \<^verbatim>\<open>compute_log_posterior\<close> allocates has exactly
  \<open>nrules\<close> entries. When \<open>m \<le> lambda\<close>, the read of \<open>log_lambda_pmf[(int)lambda]\<close> is
  inside the table if and only if \<open>floor(lambda) \<le> nrules - 1\<close>; \<open>lambda > 0\<close> alone does
  not give that, and then the call has no defined result.
\<close>

theorem lambda_table_bounds:
  assumes "log_lambda_pmf g = Null" and "0 \<le> nrules" and "nrules \<le> 2147483647"
    and "lambda p = Fin l" and "0 < l"
    and "1 \<le> n_rules rs" and "of_int (n_rules rs - 1) \<le> l"
  shows "\<exists>tbl. log_lambda_pmf (init_pmf env nrules p g) = Ptr tbl
     \<and> int (length tbl) = nrules
     \<and> ((\<exists>v. bindE (prefix_lambda_index rs p) (nth_e tbl) = Inr v) \<longleftrightarrow> \<lfloor>l\<rfloor> \<le> nrules - 1)
     \<and> (nrules - 1 < \<lfloor>l\<rfloor> \<longrightarrow>
          compute_log_posterior env rs rules nrules labels p ifPrint length4bound g = Inl OutOfBounds
        \<or> compute_log_posterior env rs rules nrules labels p ifPrint length4bound g = Inl BadCast)"
proof -
  define g1 where "g1 = init_pmf env nrules p g"
  obtain tbl where tbl: "log_lambda_pmf g1 = Ptr tbl" and len: "int (length tbl) = nrules"
    using init_pmf_tables [OF assms(1,2), of env p] by (auto simp: g1_def)
  have eta: "\<exists>t. log_eta_pmf g1 = Ptr t"
    using assms(1) by (simp add: g1_def init_pmf_def)
  have ndgt: "\<not> dgt (d_of_int (n_rules rs - 1)) (lambda p)"
    using assms(4,7) by (simp add: dgt_def d_of_int_def)
  define fl where "fl = \<lfloor>l\<rfloor>"
  have l0: "0 \<le> fl" using assms(5) by (simp add: fl_def)
  have idx: "prefix_lambda_index rs p = (if fl \<le> 2147483647 then Inr fl else Inl BadCast)"
    using ndgt assms(4,5) l0 unfolding fl_def
    by (simp add: prefix_lambda_index_def d_to_int_def)
  have acc: "(\<exists>v. bindE (prefix_lambda_index rs p) (nth_e tbl) = Inr v) \<longleftrightarrow> fl \<le> nrules - 1"
    using l0 len assms(3) by (auto simp: idx nth_e_def)
  have fail: "compute_log_posterior env rs rules nrules labels p ifPrint length4bound g = Inl OutOfBounds
        \<or> compute_log_posterior env rs rules nrules labels p ifPrint length4bound g = Inl BadCast"
    if big: "nrules - 1 < fl"
  proof (cases "count_cards rules nrules")
    case (Inl e)
    then have "e = OutOfBounds" by (rule count_cards_error)
    with Inl tbl eta show ?thesis
      unfolding compute_log_posterior_def Let_def g1_def [symmetric]
      by (auto simp: deref_def)
  next
    case (Inr cc)
    have k: "bindE (prefix_lambda_index rs p) (nth_e tbl) = Inl OutOfBounds
           \<or> bindE (prefix_lambda_index rs p) (nth_e tbl) = Inl BadCast"
      using big len by (auto simp: idx nth_e_def)
    show ?thesis
    proof (cases "nth_e tbl (n_rules rs - 1)")
      case (Inl e)
      then have "e = OutOfBounds" by (rule nth_e_Inl)
      with Inl Inr tbl eta show ?thesis
        unfolding compute_log_posterior_def Let_def g1_def [symmetric]
        by (auto simp: deref_def)
    next
      case lm: (Inr lm)
      from k lm Inr tbl eta show ?thesis
        unfolding compute_log_posterior_def Let_def g1_def [symmetric]
        by (auto simp: deref_def bindE_eq_Inl)
    qed
  qed
  from tbl len acc fail show ?thesis
    unfolding g1_def fl_def by blast
qed

lemma toy_lambda5_eval:
  "compute_log_posterior lib_env (build 4 [0] toy_rules) toy_rules 4 toy_labels
     (toy_params\<lparr>lambda := Fin 5\<rparr>) 1 (- 1) (start (sconst 0) (sconst 0)) = Inl OutOfBounds"
  by (simp add: toy_simps eval_nat_numeral Let_def)

theorem lambda_table_bounds_witness:
  "(\<exists>tbl. log_lambda_pmf (init_pmf lib_env 4 (toy_params\<lparr>lambda := Fin 5\<rparr>)
                            (start (sconst 0) (sconst 0))) = Ptr tbl
         \<and> int (length tbl) = 4
         \<and> (\<nexists>v. bindE (prefix_lambda_index (build 4 [0] toy_rules) (toy_params\<lparr>lambda := Fin 5\<rparr>))
                    (nth_e tbl) = Inr v))
   \<and> compute_log_posterior lib_env (build 4 [0] toy_rules) toy_rules 4 toy_labels
        (toy_params\<lparr>lambda := Fin 5\<rparr>) 1 (- 1) (start (sconst 0) (sconst 0)) = Inl OutOfBounds
   \<and> (0::real) < 5"
proof -
  let ?p = "toy_params\<lparr>lambda := Fin 5\<rparr>" and ?rs = "build 4 [0] toy_rules"
    and ?g = "start (sconst 0) (sconst 0)"
  have h: "log_lambda_pmf ?g = Null" "(0::int) \<le> 4" "(4::int) \<le> 2147483647" "lambda ?p = Fin 5"
    "(0::real) < 5" "1 \<le> n_rules ?rs" "of_int (n_rules ?rs - 1) \<le> (5::real)"
    by (simp_all add: start_def build_def)
  from lambda_table_bounds [OF h, of lib_env toy_rules toy_labels 1 "- 1"] toy_lambda5_eval
  show ?thesis by auto
qed

section \<open>run_mcmc\<close>

lemma bindE_assoc: "bindE (bindE m f) h = bindE m (\<lambda>x. bindE (f x) h)"
  by (cases m) simp_all

lemma for_loop_split:
  "i \<le> k \<Longrightarrow> k \<le> n \<Longrightarrow> for_loop i n body s = bindE (for_loop i k body s) (for_loop k n body)"
proof (induction i k body s rule: for_loop.induct)
  case (1 i k body s)
  show ?case
  proof (cases "i < k")
    case True
    have ih: "for_loop (i + 1) n body t = bindE (for_loop (i + 1) k body t) (for_loop k n body)"
      for t
      using "1.IH" [OF True] True "1.prems" by simp
    have l: "for_loop i n body s = bindE (body i s) (\<lambda>t. for_loop (i + 1) n body t)"
      using True "1.prems" by (subst for_loop.simps) simp
    have r: "for_loop i k body s = bindE (body i s) (\<lambda>t. for_loop (i + 1) k body t)"
      using True by (subst for_loop.simps) simp
    show ?thesis
      unfolding l r bindE_assoc by (cases "body i s") (simp_all add: ih)
  next
    case False
    with "1.prems" have "i = k" by simp
    then show ?thesis by (subst (2) for_loop.simps) simp
  qed
qed

lemma mcmc_step_max:
  assumes "mcmc_step env rules labels nrules p st = Inr st'"
  shows "m_max_log_posterior st' = m_max_log_posterior st
       \<or> (m_max_log_posterior st' = m_log_post_rs st'
          \<and> dgt (m_log_post_rs st') (m_max_log_posterior st))"
  using assms
  by (auto simp: mcmc_step_def bindE_eq_Inr split: if_splits)

lemma mcmc_loop_max:
  assumes "for_loop i n (\<lambda>k. mcmc_step env rules labels nrules p) st = Inr st'"
  shows "m_max_log_posterior st' = m_max_log_posterior st
       \<or> dgt (m_max_log_posterior st') (m_max_log_posterior st)"
  using assms
proof (rule for_loop_invariant
    [where P = "\<lambda>t. m_max_log_posterior t = m_max_log_posterior st
                   \<or> dgt (m_max_log_posterior t) (m_max_log_posterior st)"])
  show "m_max_log_posterior st = m_max_log_posterior st
      \<or> dgt (m_max_log_posterior st) (m_max_log_posterior st)"
    by simp
next
  fix j t t'
  assume t: "m_max_log_posterior t = m_max_log_posterior st
           \<or> dgt (m_max_log_posterior t) (m_max_log_posterior st)"
    and step: "mcmc_step env rules labels nrules p t = Inr t'"
  from mcmc_step_max [OF step]
  have "m_max_log_posterior t' = m_max_log_posterior t
           \<or> dgt (m_max_log_posterior t') (m_max_log_posterior t)"
    by auto
  with t show "m_max_log_posterior t' = m_max_log_posterior st
             \<or> dgt (m_max_log_posterior t') (m_max_log_posterior st)"
    unfolding dgt_def by (auto intro: dlt_trans)
qed

text \<open>
  One proposal on \<open>[rule 1, default]\<close> with the best log posterior at \<open>- 200\<close>: the
  deletion is accepted and becomes the best list.
\<close>

lemma toy_bound_above: "- 200 < 2 * ln 2 - ln 120 - (1::real)"
proof -
  have "ln (120::real) < 120" by (rule ln_less_self) simp
  moreover have "0 < ln (2::real)" by simp
  ultimately show ?thesis by linarith
qed

lemma toy_step_eval:
  "mcmc_step lib_env toy_rules toy_labels 4 toy_params
     \<lparr>m_rs = build 4 [1, 0] toy_rules, m_log_post_rs = Fin (- 200), m_rs_idarray = [1, 0],
      m_len = 2, m_nsuccessful_rej = 0, m_max_log_posterior = Fin (- 200),
      m_g = start (1073741824 ## sconst 0) (sconst 0)\<rparr> =
   Inr \<lparr>m_rs = build 4 [0] toy_rules, m_log_post_rs = Fin (2 * ln 2 - ln 120 - 1),
        m_rs_idarray = [0], m_len = 1, m_nsuccessful_rej = 0,
        m_max_log_posterior = Fin (2 * ln 2 - ln 120 - 1),
        m_g = \<lparr>g_rand = sconst 0, g_random = sconst 0,
          log_lambda_pmf = Ptr (map (\<lambda>i. dlog (poisson_pdf i (Fin 1))) [0..3]),
          log_eta_pmf = Ptr (map (\<lambda>i. dlog (poisson_pdf i (Fin 1))) [0..10]),
          eta_norm = Fin (6235301 * exp (- 1) / 3628800), n_add = 0,
          n_delete = 1, n_swap = 0, out = []\<rparr>\<rparr>"
proof -
  have bk: "ruleset_backup lib_env (build 4 [0] toy_rules) = [0]"
    by (simp add: lib_env_def ids_of_def build_def toy_rules_def)
  have n: "n_rules (build 4 [0] toy_rules) = 1"
    by (simp add: build_def)
  show ?thesis
    using toy_bound_above
    by (simp add: mcmc_step_def propose_def toy_delete_eval mcmc_accepts_def dgt_def c_random_def
        uniform_draw_def d_of_int_def RAND_MAX_def dsub_def bk n)
qed

text \<open>
  Claim C8. Within a chain of \<^verbatim>\<open>run_mcmc\<close> the value of \<^verbatim>\<open>max_log_posterior\<close> never
  decreases over the iterations of the loop: an iteration changes it only to the current
  log posterior, and only when that is strictly greater. So after \<open>j\<close> iterations it is
  equal to or greater than what it was after \<open>i \<le> j\<close> iterations.
\<close>

theorem max_log_posterior_never_decreases:
  "(\<forall>st st'. mcmc_step env rules labels nrules p st = Inr st' \<longrightarrow>
       m_max_log_posterior st' = m_max_log_posterior st
     \<or> (m_max_log_posterior st' = m_log_post_rs st'
        \<and> dgt (m_log_post_rs st') (m_max_log_posterior st)))
   \<and> (\<forall>i j st0 a b.
        0 \<le> i \<and> i \<le> j
        \<and> for_loop 0 i (\<lambda>k. mcmc_step env rules labels nrules p) st0 = Inr a
        \<and> for_loop 0 j (\<lambda>k. mcmc_step env rules labels nrules p) st0 = Inr b \<longrightarrow>
          (m_max_log_posterior b = m_max_log_posterior a
         \<or> dgt (m_max_log_posterior b) (m_max_log_posterior a))
          \<and> \<not> dlt (m_max_log_posterior b) (m_max_log_posterior a))"
proof (intro conjI allI impI)
  fix st st'
  assume "mcmc_step env rules labels nrules p st = Inr st'"
  then show "m_max_log_posterior st' = m_max_log_posterior st
     \<or> (m_max_log_posterior st' = m_log_post_rs st'
        \<and> dgt (m_log_post_rs st') (m_max_log_posterior st))"
    by (rule mcmc_step_max)
next
  fix i j st0 a b
  assume h: "0 \<le> i \<and> i \<le> j
        \<and> for_loop 0 i (\<lambda>k. mcmc_step env rules labels nrules p) st0 = Inr a
        \<and> for_loop 0 j (\<lambda>k. mcmc_step env rules labels nrules p) st0 = Inr b"
  then have a: "for_loop 0 i (\<lambda>k. mcmc_step env rules labels nrules p) st0 = Inr a"
    and b: "for_loop 0 j (\<lambda>k. mcmc_step env rules labels nrules p) st0 = Inr b"
    by simp_all
  from h have "for_loop 0 j (\<lambda>k. mcmc_step env rules labels nrules p) st0 =
      bindE (for_loop 0 i (\<lambda>k. mcmc_step env rules labels nrules p) st0)
        (for_loop i j (\<lambda>k. mcmc_step env rules labels nrules p))"
    by (intro for_loop_split) simp_all
  then have "for_loop i j (\<lambda>k. mcmc_step env rules labels nrules p) a = Inr b"
    by (simp add: a b)
  then show m: "m_max_log_posterior b = m_max_log_posterior a
         \<or> dgt (m_max_log_posterior b) (m_max_log_posterior a)"
    by (rule mcmc_loop_max)
  then show "\<not> dlt (m_max_log_posterior b) (m_max_log_posterior a)"
    unfolding dgt_def by (auto dest: dlt_asym)
qed

theorem max_log_posterior_never_decreases_witness:
  "\<exists>a b. for_loop 0 0 (\<lambda>k. mcmc_step lib_env toy_rules toy_labels 4 toy_params)
       \<lparr>m_rs = build 4 [1, 0] toy_rules, m_log_post_rs = Fin (- 200), m_rs_idarray = [1, 0],
        m_len = 2, m_nsuccessful_rej = 0, m_max_log_posterior = Fin (- 200),
        m_g = start (1073741824 ## sconst 0) (sconst 0)\<rparr> = Inr a
     \<and> for_loop 0 1 (\<lambda>k. mcmc_step lib_env toy_rules toy_labels 4 toy_params)
       \<lparr>m_rs = build 4 [1, 0] toy_rules, m_log_post_rs = Fin (- 200), m_rs_idarray = [1, 0],
        m_len = 2, m_nsuccessful_rej = 0, m_max_log_posterior = Fin (- 200),
        m_g = start (1073741824 ## sconst 0) (sconst 0)\<rparr> = Inr b
     \<and> m_max_log_posterior a = Fin (- 200)
     \<and> m_max_log_posterior b = m_log_post_rs b
     \<and> dgt (m_max_log_posterior b) (m_max_log_posterior a)
     \<and> \<not> dlt (m_max_log_posterior b) (m_max_log_posterior a)"
proof -
  let ?step = "mcmc_step lib_env toy_rules toy_labels 4 toy_params"
  let ?st0 = "\<lparr>m_rs = build 4 [1, 0] toy_rules, m_log_post_rs = Fin (- 200), m_rs_idarray = [1, 0],
        m_len = 2, m_nsuccessful_rej = 0, m_max_log_posterior = Fin (- 200),
        m_g = start (1073741824 ## sconst 0) (sconst 0)\<rparr>"
  obtain b where b: "?step ?st0 = Inr b" and mb: "m_max_log_posterior b = Fin (2 * ln 2 - ln 120 - 1)"
    and lb: "m_log_post_rs b = Fin (2 * ln 2 - ln 120 - 1)"
    using toy_step_eval by simp
  have l0: "for_loop 0 0 (\<lambda>k. ?step) ?st0 = Inr ?st0"
    by (subst for_loop.simps) simp
  have l1: "for_loop 0 1 (\<lambda>k. ?step) ?st0 = Inr b"
    by (subst for_loop.simps, simp add: b, subst for_loop.simps, simp)
  have gt: "dgt (m_max_log_posterior b) (Fin (- 200))"
    using toy_bound_above by (simp add: mb dgt_def)
  from max_log_posterior_never_decreases [of lib_env toy_rules toy_labels 4 toy_params] l0 l1
  have "\<not> dlt (m_max_log_posterior b) (m_max_log_posterior ?st0)"
    by (metis zero_le_one order_refl)
  with l0 l1 gt mb lb show ?thesis by simp
qed

section \<open>train\<close>

lemma for_loop_invariant_idx:
  assumes "for_loop i n body s = Inr s'"
    and "P i s"
    and "\<And>j t t'. i \<le> j \<Longrightarrow> j < n \<Longrightarrow> P j t \<Longrightarrow> body j t = Inr t' \<Longrightarrow> P (j + 1) t'"
  shows "P (max i n) s'"
  using assms
proof (induction i n body s rule: for_loop.induct)
  case (1 i n body s)
  show ?case
  proof (cases "i < n")
    case True
    with "1.prems"(1) obtain t where t: "body i s = Inr t"
      and rest: "for_loop (i + 1) n body t = Inr s'"
      by (subst (asm) for_loop.simps) (auto simp: bindE_eq_Inr)
    have "P (i + 1) t" using "1.prems"(3)[OF _ True "1.prems"(2) t] by simp
    have step: "P (j + 1) u'" if "i + 1 \<le> j" "j < n" "P j u" "body j u = Inr u'" for j u u'
      using "1.prems"(3)[of j u u'] that by simp
    have "P (max (i + 1) n) s'"
      by (rule "1.IH"[OF True rest \<open>P (i + 1) t\<close>]) (rule step)
    with True show ?thesis by (simp add: max_def)
  next
    case False
    with "1.prems"(1) have "s' = s" by (subst (asm) for_loop.simps) simp
    with "1.prems"(2) False show ?thesis by (simp add: max_def)
  qed
qed

lemma dlt_le_trans: "dlt a b \<Longrightarrow> \<not> dlt c b \<Longrightarrow> c \<noteq> NaN \<Longrightarrow> dlt a c"
  by (cases a; cases b; cases c) simp_all

text \<open>
  A chain that returns was given a \<open>v_star\<close> above \<open>- 1e10\<close>: otherwise no initial list is
  drawn and the chain reads a NULL rule list.
\<close>

lemma run_mcmc_needs_bound:
  assumes "run_mcmc env iters init_size nsamples nrules rules labels p v_star g = Inr r"
  shows "dlt (Fin (- (10 ^ 10))) v_star"
proof (rule ccontr)
  assume n: "\<not> dlt (Fin (- (10 ^ 10))) v_star"
  have "mcmc_start env init_size nsamples nrules rules labels p v_star g = Inl NullPointer"
    unfolding mcmc_start_def
    using n by (subst mcmc_init.simps) (simp add: deref_def)
  with assms show False by (simp add: run_mcmc_def)
qed

lemma train_step_best:
  assumes "train_step env train_data p st = Inr st'" and "best_so_far env train_data p st"
  shows "best_so_far env train_data p st'"
proof -
  from assms(1) obtain rs_temp g1 pos_temp nb g2 where
    run: "run_mcmc env (p_iters p) (p_init_size p) (d_nsamples train_data) (d_nrules train_data)
          (d_rules train_data) (d_labels train_data) p (c_max_pos st) (c_g st) = Inr (rs_temp, g1)"
    and sc: "compute_log_posterior env rs_temp (d_rules train_data) (d_nrules train_data)
          (d_labels train_data) p 1 (- 1) g1 = Inr (pos_temp, nb, g2)"
    and st': "st' = (if dge pos_temp (c_max_pos st)
        then st\<lparr>c_rs := rs_temp, c_max_pos := pos_temp,
                 c_destroyed := c_destroyed st @ [(c_rs st, c_max_pos st)], c_g := g2\<rparr>
        else st\<lparr>c_destroyed := c_destroyed st @ [(rs_temp, pos_temp)], c_g := g2\<rparr>)"
    unfolding train_step_def by (auto simp: bindE_eq_Inr split: if_splits)
  from run_mcmc_needs_bound [OF run] have mx: "c_max_pos st \<noteq> NaN"
    by (cases "c_max_pos st") simp_all
  show ?thesis
  proof (cases "dge pos_temp (c_max_pos st)")
    case True
    then have nn: "pos_temp \<noteq> NaN" and ge: "\<not> dlt pos_temp (c_max_pos st)"
      by (simp_all add: dge_def)
    have "\<not> dlt pos_temp pos" if "\<not> dlt (c_max_pos st) pos" for pos
      using that ge nn mx dlt_le_trans [of pos_temp pos "c_max_pos st"] dlt_asym dlt_trans
      by blast
    with assms(2) sc True mx show ?thesis
      unfolding best_so_far_def st' by (auto simp: dgt_def dge_def)
  next
    case False
    then have "\<not> dlt (c_max_pos st) pos_temp"
      unfolding dge_def by (cases pos_temp; cases "c_max_pos st") auto
    with assms(2) sc False mx show ?thesis
      unfolding best_so_far_def st' by (auto simp: dgt_def dge_def)
  qed
qed

lemma train_chains_best:
  assumes "train_chains env train_data p g = Inr st"
  shows "best_so_far env train_data p st"
proof -
  from assms obtain rs0 g1 max_pos nb g2 where
    sc: "compute_log_posterior env rs0 (d_rules train_data) (d_nrules train_data)
          (d_labels train_data) p 1 (- 1) g1 = Inr (max_pos, nb, g2)"
    and loop: "for_loop 1 (nchain p) (\<lambda>chain. train_step env train_data p)
       \<lparr>c_rs = rs0, c_max_pos = max_pos, c_destroyed = [], c_g = g2\<rparr> = Inr st"
    unfolding train_chains_def by (auto simp: bindE_eq_Inr)
  from loop show ?thesis
  proof (rule for_loop_invariant [where P = "best_so_far env train_data p"])
    show "best_so_far env train_data p
        \<lparr>c_rs = rs0, c_max_pos = max_pos, c_destroyed = [], c_g = g2\<rparr>"
      using sc by (auto simp: best_so_far_def)
  next
    fix j t t'
    assume "best_so_far env train_data p t" "train_step env train_data p t = Inr t'"
    then show "best_so_far env train_data p t'" by (rule train_step_best [rotated])
  qed
qed

lemma train_step_destroys_one:
  "train_step env train_data p st = Inr st' \<Longrightarrow>
   length (c_destroyed st') = length (c_destroyed st) + 1"
  unfolding train_step_def by (auto simp: bindE_eq_Inr split: if_splits)

lemma train_chains_count:
  assumes "train_chains env train_data p g = Inr st" and "1 \<le> nchain p"
  shows "int (length (c_destroyed st)) + 1 = nchain p"
proof -
  from assms obtain st0 where
    loop: "for_loop 1 (nchain p) (\<lambda>chain. train_step env train_data p) st0 = Inr st"
    and st0: "c_destroyed st0 = []"
    unfolding train_chains_def by (auto simp: bindE_eq_Inr)
  from loop have "int (length (c_destroyed st)) + 1 = max 1 (nchain p)"
  proof (rule for_loop_invariant_idx [where P = "\<lambda>j t. int (length (c_destroyed t)) + 1 = j"])
    show "int (length (c_destroyed st0)) + 1 = 1" by (simp add: st0)
  next
    fix j t t'
    assume "int (length (c_destroyed t)) + 1 = j" "train_step env train_data p t = Inr t'"
    then show "int (length (c_destroyed t')) + 1 = j + 1"
      using train_step_destroys_one by fastforce
  qed
  with assms(2) show ?thesis by simp
qed

text \<open>
  Two chains with no proposals and an initial list of the default rule alone: the second
  chain ends with a list that scores as the first, and replaces it.
\<close>

lemma toy_bound_init: "\<not> 2 * ln 2 - ln 120 - (1::real) < - 1000000000"
proof -
  have "ln (120::real) < 120" by (rule ln_less_self) simp
  moreover have "0 < ln (2::real)" by simp
  ultimately show ?thesis by linarith
qed

lemmas toy_train_simps =
  train_chains_def toy_data_def run_mcmc_def mcmc_start_def mcmc_init.simps create_loop.simps
  train_step_def dge_def

lemma toy_chains_eval:
  "train_chains lib_env toy_data (toy_params\<lparr>p_init_size := 0, nchain := 2\<rparr>)
     (start (sconst 0) (sconst 0)) =
   Inr \<lparr>c_rs = build 4 [0] toy_rules, c_max_pos = Fin (2 * ln 2 - ln 120 - 1),
        c_destroyed = [(build 4 [0] toy_rules, Fin (2 * ln 2 - ln 120 - 1))],
        c_g = \<lparr>g_rand = sconst 0, g_random = sconst 0,
          log_lambda_pmf = Ptr (map (\<lambda>i. dlog (poisson_pdf i (Fin 1))) [0..3]),
          log_eta_pmf = Ptr (map (\<lambda>i. dlog (poisson_pdf i (Fin 1))) [0..10]),
          eta_norm = Fin (6235301 * exp (- 1) / 3628800), n_add = 0,
          n_delete = 0, n_swap = 0, out = []\<rparr>\<rparr>"
  using toy_bound_init
  by (simp add: toy_train_simps toy_simps eval_nat_numeral Let_def)

lemma toy_train_eval:
  "train lib_env toy_data 0 0 (toy_params\<lparr>p_init_size := 0, nchain := 2\<rparr>)
     (start (sconst 0) (sconst 0)) =
   Inr (\<lparr>pm_theta = Ptr [Fin (1 / 2)], pm_rs = build 4 [0] toy_rules\<rparr>,
     \<lparr>g_rand = sconst 0, g_random = sconst 0, log_lambda_pmf = Freed, log_eta_pmf = Freed,
      eta_norm = Fin (6235301 * exp (- 1) / 3628800), n_add = 0,
      n_delete = 0, n_swap = 0, out = []\<rparr>)"
  using toy_bound_init
  by (simp add: train_def get_theta_def toy_train_simps toy_simps eval_nat_numeral Let_def)



section \<open>Numeric failures\<close>

lemma dlt_NaN_right [simp]: "\<not> dlt a NaN"
  by (cases a) simp_all

text \<open>
  Adding rule 2 behind rule 1 in the list \<open>[rule 1, default]\<close> of the library
  \<open>odd_rules\<close>, with \<open>eta = 1/10\<close>. Rule 1 uses up cardinality 0, whose mass \<open>exp (- 1/10)\<close>
  is more than \<open>eta_norm\<close>; \<open>norm_constant\<close> becomes negative, its logarithm at the next
  position is a NaN, and so are the log prior, the log posterior and the prefix bound.
\<close>

lemma odd_add_eval:
  "propose_eval lib_env (build 4 [1, 0] odd_rules) odd_rules toy_labels 3
     (toy_params\<lparr>eta := Fin (1 / 10)\<rparr>) (start (0 ## 2 ## 1 ## sconst 0) (sconst 0)) =
   Inr (build 4 [1, 2, 0] odd_rules, Fin 0, NaN, NaN,
     \<lparr>g_rand = sconst 0, g_random = sconst 0,
      log_lambda_pmf = Ptr (map (\<lambda>i. dlog (poisson_pdf i (Fin 1))) [0..2]),
      log_eta_pmf = Ptr (map (\<lambda>i. dlog (poisson_pdf i (Fin (1 / 10)))) [0..10]),
      eta_norm = Fin (3816442275129101 * exp (- (1 / 10)) / 36288000000000000),
      n_add = 1, n_delete = 0, n_swap = 0,
      out = [NAN_log_eta_norm 1, NAN_here_aa 1, NAN_here_bb 1]\<rparr>)"
  by (simp add: toy_simps eval_nat_numeral Let_def odd_rules_def pick_def pick_loop.simps dne_def)

text \<open>
  Claim C3, as stated, fails: if in \<^verbatim>\<open>compute_log_posterior\<close> the running log prior or
  \<open>norm_constant\<close> becomes a NaN, or \<open>norm_constant\<close> becomes \<open>\<le> 0\<close>, the proposal is rejected
  and the event is counted. In the proposal above \<open>norm_constant\<close> becomes negative and the
  log prior a NaN, the three warnings of position 1 are printed, and the counter of
  \<^verbatim>\<open>propose\<close> is 0 before and after.
\<close>

theorem numeric_failure_not_counted:
  "\<exists>g'. propose_eval lib_env (build 4 [1, 0] odd_rules) odd_rules toy_labels 3
          (toy_params\<lparr>eta := Fin (1 / 10)\<rparr>) (start (0 ## 2 ## 1 ## sconst 0) (sconst 0)) =
        Inr (build 4 [1, 2, 0] odd_rules, Fin 0, NaN, NaN, g')
     \<and> out g' = [NAN_log_eta_norm 1, NAN_here_aa 1, NAN_here_bb 1]
     \<and> propose lib_env (build 4 [1, 0] odd_rules) odd_rules toy_labels 3 (Fin (- 200))
          (Fin (- 200)) 0 Jump_prob (toy_params\<lparr>eta := Fin (1 / 10)\<rparr>) mcmc_accepts
          (start (0 ## 2 ## 1 ## sconst 0) (sconst 0)) =
        Inr (build 4 [1, 0] odd_rules, Fin 0, Fin (- 200), 0, g')"
  by (simp add: propose_def odd_add_eval mcmc_accepts_def dgt_def)

lemma prior_step_error:
  "prior_step rs rules eta_pmf length4bound i st = Inl e \<Longrightarrow> e = OutOfBounds"
  by (auto simp: prior_step_def bindE_eq_Inl Let_def dest: nth_e_Inl)

lemma prior_step_printed:
  assumes "prior_step rs rules eta_pmf length4bound i st = Inr st'"
  shows "(dlog (norm_constant st) = NaN \<longrightarrow> NAN_log_eta_norm i \<in> set (printed st'))
       \<and> (log_prior st' = NaN \<longrightarrow> NAN_here_bb i \<in> set (printed st'))"
  using assms by (auto simp: prior_step_def bindE_eq_Inr Let_def dne_def)

lemma propose_NaN_rejected:
  assumes "propose_eval env rs rules labels nrules p g = Inr (rs_new, jump_prob, NaN, prefix_bound, g1)"
    and "accept_func = mcmc_accepts \<or> accept_func = sa_accepts"
  shows "\<exists>g2. propose env rs rules labels nrules ret_log_post max_log_post cnt extra p accept_func g =
           Inr (rs, jump_prob, ret_log_post,
                if dlt prefix_bound max_log_post then cnt + 1 else cnt, g2)"
proof -
  define ex where "ex = (case extra of Jump_prob \<Rightarrow> jump_prob | Own v \<Rightarrow> v)"
  have "\<exists>g2. accept_func NaN ret_log_post prefix_bound max_log_post ex g1 = (False, g2)"
    using assms(2)
    by (auto simp: mcmc_accepts_def sa_accepts_def dsub_def dgt_def split: prod.splits)
  then obtain g2 where
    acc: "accept_func NaN ret_log_post prefix_bound max_log_post ex g1 = (False, g2)" ..
  have "propose env rs rules labels nrules ret_log_post max_log_post cnt extra p accept_func g =
           Inr (rs, jump_prob, ret_log_post,
                if dlt prefix_bound max_log_post then cnt + 1 else cnt, g2)"
    using assms(1) acc by (simp add: propose_def ex_def [symmetric])
  then show ?thesis ..
qed

text \<open>
  Claim C3, amended. \<^verbatim>\<open>compute_log_posterior\<close> only prints a warning where
  \<open>log(norm_constant)\<close> or the running log prior is a NaN, and goes on: a step of its loop
  fails on nothing but a read outside an array, \<open>norm_constant \<le> 0\<close> is not tested and
  nothing is counted. A proposal whose log posterior is a NaN is rejected by
  \<^verbatim>\<open>mcmc_accepts\<close> and by \<^verbatim>\<open>sa_accepts\<close> all the same, every comparison with a NaN being
  false, and the reject counter is incremented only when \<open>prefix_bound < max_log_post\<close>.
\<close>

theorem numeric_failure_only_warns:
  "(\<forall>rs rules eta_pmf length4bound i st e.
      prior_step rs rules eta_pmf length4bound i st = Inl e \<longrightarrow> e = OutOfBounds)
   \<and> (\<forall>rs rules eta_pmf length4bound i st st'.
        prior_step rs rules eta_pmf length4bound i st = Inr st' \<longrightarrow>
          (dlog (norm_constant st) = NaN \<longrightarrow> NAN_log_eta_norm i \<in> set (printed st'))
        \<and> (log_prior st' = NaN \<longrightarrow> NAN_here_bb i \<in> set (printed st')))
   \<and> (\<forall>rs_new jump_prob prefix_bound g1 accept_func.
        propose_eval env rs rules labels nrules p g =
          Inr (rs_new, jump_prob, NaN, prefix_bound, g1)
        \<and> (accept_func = mcmc_accepts \<or> accept_func = sa_accepts) \<longrightarrow>
        (\<exists>g2. propose env rs rules labels nrules ret_log_post max_log_post cnt extra p
                 accept_func g =
               Inr (rs, jump_prob, ret_log_post,
                    if dlt prefix_bound max_log_post then cnt + 1 else cnt, g2)))"
proof (intro conjI allI impI)
  fix rs rules eta_pmf length4bound i st e
  assume "prior_step rs rules eta_pmf length4bound i st = Inl e"
  then show "e = OutOfBounds" by (rule prior_step_error)
next
  fix rs rules eta_pmf length4bound i st st'
  assume s: "prior_step rs rules eta_pmf length4bound i st = Inr st'"
  {
    assume "dlog (norm_constant st) = NaN"
    with prior_step_printed [OF s] show "NAN_log_eta_norm i \<in> set (printed st')" by simp
  }
  assume "log_prior st' = NaN"
  with prior_step_printed [OF s] show "NAN_here_bb i \<in> set (printed st')" by simp
next
  fix rs_new jump_prob prefix_bound g1 accept_func
  assume "propose_eval env rs rules labels nrules p g =
          Inr (rs_new, jump_prob, NaN, prefix_bound, g1)
        \<and> (accept_func = mcmc_accepts \<or> accept_func = sa_accepts)"
  then show "\<exists>g2. propose env rs rules labels nrules ret_log_post max_log_post cnt extra p
                 accept_func g =
               Inr (rs, jump_prob, ret_log_post,
                    if dlt prefix_bound max_log_post then cnt + 1 else cnt, g2)"
    using propose_NaN_rejected by blast
qed

theorem numeric_failure_only_warns_witness:
  "(\<exists>g2. propose lib_env (build 4 [1, 0] odd_rules) odd_rules toy_labels 3 (Fin (- 200))
          (Fin (- 200)) 0 (Own (Fin 1)) (toy_params\<lparr>eta := Fin (1 / 10)\<rparr>) sa_accepts
          (start (0 ## 2 ## 1 ## sconst 0) (sconst 0)) =
        Inr (build 4 [1, 0] odd_rules, Fin 0, Fin (- 200), 0, g2))
   \<and> (\<exists>st'. prior_step (build 4 [1, 2, 0] odd_rules) odd_rules (replicate 11 (Fin 0)) 1 1
          \<lparr>log_prior = Fin 0, prefix_prior = Fin 0, card_count = [0, 2, 0, 0, 0, 0, 0, 0, 0, 0, 0],
             norm_constant = Fin (- 1), printed = []\<rparr> = Inr st'
        \<and> log_prior st' = NaN
        \<and> NAN_log_eta_norm 1 \<in> set (printed st')
        \<and> NAN_here_bb 1 \<in> set (printed st'))
   \<and> prior_step (build 4 [1, 2, 0] odd_rules) odd_rules (replicate 11 (Fin 0)) 1 7
          \<lparr>log_prior = Fin 0, prefix_prior = Fin 0, card_count = [0, 2, 0, 0, 0, 0, 0, 0, 0, 0, 0],
             norm_constant = Fin (- 1), printed = []\<rparr> = Inl OutOfBounds"
proof -
  let ?st = "\<lparr>log_prior = Fin 0, prefix_prior = Fin 0,
      card_count = [0, 2, 0, 0, 0, 0, 0, 0, 0, 0, 0], norm_constant = Fin (- 1), printed = []\<rparr>"
  let ?step = "prior_step (build 4 [1, 2, 0] odd_rules) odd_rules (replicate 11 (Fin 0)) 1"
  note inst = numeric_failure_only_warns
    [of lib_env "build 4 [1, 0] odd_rules" odd_rules toy_labels 3
      "toy_params\<lparr>eta := Fin (1 / 10)\<rparr>" "start (0 ## 2 ## 1 ## sconst 0) (sconst 0)"
      "Fin (- 200)" "Fin (- 200)" 0 "Own (Fin 1)"]
  from inst odd_add_eval
  have "\<exists>g2. propose lib_env (build 4 [1, 0] odd_rules) odd_rules toy_labels 3 (Fin (- 200))
          (Fin (- 200)) 0 (Own (Fin 1)) (toy_params\<lparr>eta := Fin (1 / 10)\<rparr>) sa_accepts
          (start (0 ## 2 ## 1 ## sconst 0) (sconst 0)) =
        Inr (build 4 [1, 0] odd_rules, Fin 0, Fin (- 200),
             if dlt NaN (Fin (- 200)) then 0 + 1 else 0, g2)"
    by blast
  then have a: "\<exists>g2. propose lib_env (build 4 [1, 0] odd_rules) odd_rules toy_labels 3
          (Fin (- 200)) (Fin (- 200)) 0 (Own (Fin 1)) (toy_params\<lparr>eta := Fin (1 / 10)\<rparr>)
          sa_accepts (start (0 ## 2 ## 1 ## sconst 0) (sconst 0)) =
        Inr (build 4 [1, 0] odd_rules, Fin 0, Fin (- 200), 0, g2)"
    by simp
  obtain st' where s: "?step 1 ?st = Inr st'" and l: "log_prior st' = NaN"
    and n: "dlog (norm_constant ?st) = NaN"
    by (simp add: prior_step_def nth_e_def build_def odd_rules_def Let_def d_of_int_def
        dsub_def eval_nat_numeral)
  from inst s l n have b: "NAN_log_eta_norm 1 \<in> set (printed st')"
    "NAN_here_bb 1 \<in> set (printed st')"
    by blast+
  have "\<exists>e. ?step 7 ?st = Inl e"
    by (simp add: prior_step_def nth_e_def build_def odd_rules_def Let_def)
  with inst have c: "?step 7 ?st = Inl OutOfBounds" by blast
  from a s l b c show ?thesis by blast
qed

section \<open>The cooling schedule\<close>

text \<open>
  Enclosures of \<open>exp (k / 4)\<close> for \<open>k = 1, \<dots>, 28\<close>: the first from the Taylor polynomial
  of degree 7 with its remainder, the others by multiplying, rounded outwards to eight
  decimal places.
\<close>

lemma exp_quarter_bounds:
  "128402541 / 100000000 \<le> exp (1 / 4 :: real) \<and> exp (1 / 4 :: real) \<le> 64201271 / 50000000"
proof -
  obtain t :: real where t: "\<bar>t\<bar> \<le> \<bar>1 / 4\<bar>"
    and e: "exp (1 / 4 :: real) = (\<Sum>m<8. (1 / 4) ^ m / fact m) + exp t / fact 8 * (1 / 4) ^ 8"
    using Maclaurin_exp_le [of "1 / 4 :: real" 8] by blast
  have s: "(\<Sum>m<8. (1 / 4 :: real) ^ m / fact m) = 106028861 / 82575360"
    by (simp add: eval_nat_numeral)
  define r where "r = exp t"
  have "r \<le> exp (1 / 4 :: real)" using t by (simp add: r_def)
  also have "\<dots> \<le> 1 + 1 / 4 + (1 / 4)\<^sup>2" by (rule exp_bound) simp_all
  finally have u: "r \<le> 2" by (simp add: power2_eq_square)
  have l: "0 < r" by (simp add: r_def)
  have "exp (1 / 4 :: real) = 106028861 / 82575360 + r / 2642411520"
    unfolding e s r_def by (simp add: eval_nat_numeral)
  with l u show ?thesis by simp
qed

lemma enclosure_times:
  fixes x q :: real
  assumes "a \<le> x \<and> x \<le> b" and "c \<le> q \<and> q \<le> d"
    and "0 \<le> a" and "0 \<le> c" and "a' \<le> a * c" and "b * d \<le> b'"
  shows "a' \<le> x * q \<and> x * q \<le> b'"
proof
  have "a * c \<le> x * q" using assms by (intro mult_mono) simp_all
  with assms(5) show "a' \<le> x * q" by simp
  have "x * q \<le> b * d" using assms by (intro mult_mono) simp_all
  with assms(6) show "x * q \<le> b'" by simp
qed

lemma exp_quarter_multiples:
  "1318977 / 800000 \<le> exp (1 / 2 :: real) \<and> exp (1 / 2 :: real) \<le> 2576127 / 1562500"
  "211699997 / 100000000 \<le> exp (3 / 4 :: real) \<and> exp (3 / 4 :: real) \<le> 52925001 / 25000000"
  "10873127 / 4000000 \<le> exp (1 :: real) \<and> exp (1 :: real) \<le> 271828187 / 100000000"
  "349034283 / 100000000 \<le> exp (5 / 4 :: real) \<and> exp (5 / 4 :: real) \<le> 174517151 / 50000000"
  "56021111 / 12500000 \<le> exp (3 / 2 :: real) \<and> exp (3 / 2 :: real) \<le> 448168917 / 100000000"
  "7193253 / 1250000 \<le> exp (7 / 4 :: real) \<and> exp (7 / 4 :: real) \<le> 287730141 / 50000000"
  "73890557 / 10000000 \<le> exp (2 :: real) \<and> exp (2 :: real) \<le> 738905631 / 100000000"
  "948773527 / 100000000 \<le> exp (9 / 4 :: real) \<and> exp (9 / 4 :: real) \<le> 474386807 / 50000000"
  "1218249317 / 100000000 \<le> exp (5 / 2 :: real) \<and> exp (5 / 2 :: real) \<le> 1218249439 / 100000000"
  "782131539 / 50000000 \<le> exp (11 / 4 :: real) \<and> exp (11 / 4 :: real) \<le> 97766453 / 6250000"
  "100427677 / 5000000 \<le> exp (3 :: real) \<and> exp (3 :: real) \<le> 80342151 / 4000000"
  "1289516891 / 50000000 \<le> exp (13 / 4 :: real) \<and> exp (13 / 4 :: real) \<le> 515806821 / 20000000"
  "3311544909 / 100000000 \<le> exp (7 / 2 :: real) \<and> exp (7 / 2 :: real) \<le> 66230907 / 2000000"
  "4252107809 / 100000000 \<le> exp (15 / 4 :: real) \<and> exp (15 / 4 :: real) \<le> 4252108409 / 100000000"
  "682476809 / 12500000 \<le> exp (4 :: real) \<and> exp (4 :: real) \<le> 2729907643 / 50000000"
  "1402108103 / 20000000 \<le> exp (17 / 4 :: real) \<and> exp (17 / 4 :: real) \<le> 438158851 / 6250000"
  "9001712159 / 100000000 \<le> exp (9 / 2 :: real) \<and> exp (9 / 2 :: real) \<le> 9001713643 / 100000000"
  "2311685429 / 20000000 \<le> exp (19 / 4 :: real) \<and> exp (19 / 4 :: real) \<le> 5779214571 / 50000000"
  "14841314153 / 100000000 \<le> exp (5 :: real) \<and> exp (5 :: real) \<le> 7420658417 / 50000000"
  "1905662449 / 10000000 \<le> exp (21 / 4 :: real) \<and> exp (21 / 4 :: real) \<le> 9528314041 / 50000000"
  "24469190073 / 100000000 \<le> exp (11 / 2 :: real) \<and> exp (11 / 2 :: real) \<le> 24469194877 / 100000000"
  "6283812363 / 20000000 \<le> exp (23 / 4 :: real) \<and> exp (23 / 4 :: real) \<le> 3141906823 / 10000000"
  "315178701 / 781250 \<le> exp (6 :: real) \<and> exp (6 :: real) \<le> 40342882281 / 100000000"
  "51801274979 / 100000000 \<le> exp (25 / 4 :: real) \<and> exp (25 / 4 :: real) \<le> 10360257273 / 20000000"
  "66514153343 / 100000000 \<le> exp (13 / 2 :: real) \<and> exp (13 / 2 :: real) \<le> 33257084241 / 50000000"
  "85405863017 / 100000000 \<le> exp (27 / 4 :: real) \<and> exp (27 / 4 :: real) \<le> 42702941561 / 50000000"
  "27415824569 / 25000000 \<le> exp (7 :: real) \<and> exp (7 :: real) \<le> 109663324947 / 100000000"
proof -
  note q = exp_quarter_bounds
  have m2: "exp (1 / 2 :: real) = exp (1 / 4) * exp (1 / 4)"
    by (simp flip: exp_add)
  show e2: "1318977 / 800000 \<le> exp (1 / 2 :: real) \<and> exp (1 / 2 :: real) \<le> 2576127 / 1562500"
    unfolding m2 by (rule enclosure_times [OF q q]) simp_all
  have m3: "exp (3 / 4 :: real) = exp (1 / 2) * exp (1 / 4)"
    by (simp flip: exp_add)
  show e3: "211699997 / 100000000 \<le> exp (3 / 4 :: real) \<and> exp (3 / 4 :: real) \<le> 52925001 / 25000000"
    unfolding m3 by (rule enclosure_times [OF e2 q]) simp_all
  have m4: "exp (1 :: real) = exp (3 / 4) * exp (1 / 4)"
    by (simp flip: exp_add)
  show e4: "10873127 / 4000000 \<le> exp (1 :: real) \<and> exp (1 :: real) \<le> 271828187 / 100000000"
    unfolding m4 by (rule enclosure_times [OF e3 q]) simp_all
  have m5: "exp (5 / 4 :: real) = exp (1) * exp (1 / 4)"
    by (simp flip: exp_add)
  show e5: "349034283 / 100000000 \<le> exp (5 / 4 :: real) \<and> exp (5 / 4 :: real) \<le> 174517151 / 50000000"
    unfolding m5 by (rule enclosure_times [OF e4 q]) simp_all
  have m6: "exp (3 / 2 :: real) = exp (5 / 4) * exp (1 / 4)"
    by (simp flip: exp_add)
  show e6: "56021111 / 12500000 \<le> exp (3 / 2 :: real) \<and> exp (3 / 2 :: real) \<le> 448168917 / 100000000"
    unfolding m6 by (rule enclosure_times [OF e5 q]) simp_all
  have m7: "exp (7 / 4 :: real) = exp (3 / 2) * exp (1 / 4)"
    by (simp flip: exp_add)
  show e7: "7193253 / 1250000 \<le> exp (7 / 4 :: real) \<and> exp (7 / 4 :: real) \<le> 287730141 / 50000000"
    unfolding m7 by (rule enclosure_times [OF e6 q]) simp_all
  have m8: "exp (2 :: real) = exp (7 / 4) * exp (1 / 4)"
    by (simp flip: exp_add)
  show e8: "73890557 / 10000000 \<le> exp (2 :: real) \<and> exp (2 :: real) \<le> 738905631 / 100000000"
    unfolding m8 by (rule enclosure_times [OF e7 q]) simp_all
  have m9: "exp (9 / 4 :: real) = exp (2) * exp (1 / 4)"
    by (simp flip: exp_add)
  show e9: "948773527 / 100000000 \<le> exp (9 / 4 :: real) \<and> exp (9 / 4 :: real) \<le> 474386807 / 50000000"
    unfolding m9 by (rule enclosure_times [OF e8 q]) simp_all
  have m10: "exp (5 / 2 :: real) = exp (9 / 4) * exp (1 / 4)"
    by (simp flip: exp_add)
  show e10: "1218249317 / 100000000 \<le> exp (5 / 2 :: real) \<and> exp (5 / 2 :: real) \<le> 1218249439 / 100000000"
    unfolding m10 by (rule enclosure_times [OF e9 q]) simp_all
  have m11: "exp (11 / 4 :: real) = exp (5 / 2) * exp (1 / 4)"
    by (simp flip: exp_add)
  show e11: "782131539 / 50000000 \<le> exp (11 / 4 :: real) \<and> exp (11 / 4 :: real) \<le> 97766453 / 6250000"
    unfolding m11 by (rule enclosure_times [OF e10 q]) simp_all
  have m12: "exp (3 :: real) = exp (11 / 4) * exp (1 / 4)"
    by (simp flip: exp_add)
  show e12: "100427677 / 5000000 \<le> exp (3 :: real) \<and> exp (3 :: real) \<le> 80342151 / 4000000"
    unfolding m12 by (rule enclosure_times [OF e11 q]) simp_all
  have m13: "exp (13 / 4 :: real) = exp (3) * exp (1 / 4)"
    by (simp flip: exp_add)
  show e13: "1289516891 / 50000000 \<le> exp (13 / 4 :: real) \<and> exp (13 / 4 :: real) \<le> 515806821 / 20000000"
    unfolding m13 by (rule enclosure_times [OF e12 q]) simp_all
  have m14: "exp (7 / 2 :: real) = exp (13 / 4) * exp (1 / 4)"
    by (simp flip: exp_add)
  show e14: "3311544909 / 100000000 \<le> exp (7 / 2 :: real) \<and> exp (7 / 2 :: real) \<le> 66230907 / 2000000"
    unfolding m14 by (rule enclosure_times [OF e13 q]) simp_all
  have m15: "exp (15 / 4 :: real) = exp (7 / 2) * exp (1 / 4)"
    by (simp flip: exp_add)
  show e15: "4252107809 / 100000000 \<le> exp (15 / 4 :: real) \<and> exp (15 / 4 :: real) \<le> 4252108409 / 100000000"
    unfolding m15 by (rule enclosure_times [OF e14 q]) simp_all
  have m16: "exp (4 :: real) = exp (15 / 4) * exp (1 / 4)"
    by (simp flip: exp_add)
  show e16: "682476809 / 12500000 \<le> exp (4 :: real) \<and> exp (4 :: real) \<le> 2729907643 / 50000000"
    unfolding m16 by (rule enclosure_times [OF e15 q]) simp_all
  have m17: "exp (17 / 4 :: real) = exp (4) * exp (1 / 4)"
    by (simp flip: exp_add)
  show e17: "1402108103 / 20000000 \<le> exp (17 / 4 :: real) \<and> exp (17 / 4 :: real) \<le> 438158851 / 6250000"
    unfolding m17 by (rule enclosure_times [OF e16 q]) simp_all
  have m18: "exp (9 / 2 :: real) = exp (17 / 4) * exp (1 / 4)"
    by (simp flip: exp_add)
  show e18: "9001712159 / 100000000 \<le> exp (9 / 2 :: real) \<and> exp (9 / 2 :: real) \<le> 9001713643 / 100000000"
    unfolding m18 by (rule enclosure_times [OF e17 q]) simp_all
  have m19: "exp (19 / 4 :: real) = exp (9 / 2) * exp (1 / 4)"
    by (simp flip: exp_add)
  show e19: "2311685429 / 20000000 \<le> exp (19 / 4 :: real) \<and> exp (19 / 4 :: real) \<le> 5779214571 / 50000000"
    unfolding m19 by (rule enclosure_times [OF e18 q]) simp_all
  have m20: "exp (5 :: real) = exp (19 / 4) * exp (1 / 4)"
    by (simp flip: exp_add)
  show e20: "14841314153 / 100000000 \<le> exp (5 :: real) \<and> exp (5 :: real) \<le> 7420658417 / 50000000"
    unfolding m20 by (rule enclosure_times [OF e19 q]) simp_all
  have m21: "exp (21 / 4 :: real) = exp (5) * exp (1 / 4)"
    by (simp flip: exp_add)
  show e21: "1905662449 / 10000000 \<le> exp (21 / 4 :: real) \<and> exp (21 / 4 :: real) \<le> 9528314041 / 50000000"
    unfolding m21 by (rule enclosure_times [OF e20 q]) simp_all
  have m22: "exp (11 / 2 :: real) = exp (21 / 4) * exp (1 / 4)"
    by (simp flip: exp_add)
  show e22: "24469190073 / 100000000 \<le> exp (11 / 2 :: real) \<and> exp (11 / 2 :: real) \<le> 24469194877 / 100000000"
    unfolding m22 by (rule enclosure_times [OF e21 q]) simp_all
  have m23: "exp (23 / 4 :: real) = exp (11 / 2) * exp (1 / 4)"
    by (simp flip: exp_add)
  show e23: "6283812363 / 20000000 \<le> exp (23 / 4 :: real) \<and> exp (23 / 4 :: real) \<le> 3141906823 / 10000000"
    unfolding m23 by (rule enclosure_times [OF e22 q]) simp_all
  have m24: "exp (6 :: real) = exp (23 / 4) * exp (1 / 4)"
    by (simp flip: exp_add)
  show e24: "315178701 / 781250 \<le> exp (6 :: real) \<and> exp (6 :: real) \<le> 40342882281 / 100000000"
    unfolding m24 by (rule enclosure_times [OF e23 q]) simp_all
  have m25: "exp (25 / 4 :: real) = exp (6) * exp (1 / 4)"
    by (simp flip: exp_add)
  show e25: "51801274979 / 100000000 \<le> exp (25 / 4 :: real) \<and> exp (25 / 4 :: real) \<le> 10360257273 / 20000000"
    unfolding m25 by (rule enclosure_times [OF e24 q]) simp_all
  have m26: "exp (13 / 2 :: real) = exp (25 / 4) * exp (1 / 4)"
    by (simp flip: exp_add)
  show e26: "66514153343 / 100000000 \<le> exp (13 / 2 :: real) \<and> exp (13 / 2 :: real) \<le> 33257084241 / 50000000"
    unfolding m26 by (rule enclosure_times [OF e25 q]) simp_all
  have m27: "exp (27 / 4 :: real) = exp (13 / 2) * exp (1 / 4)"
    by (simp flip: exp_add)
  show e27: "85405863017 / 100000000 \<le> exp (27 / 4 :: real) \<and> exp (27 / 4 :: real) \<le> 42702941561 / 50000000"
    unfolding m27 by (rule enclosure_times [OF e26 q]) simp_all
  have m28: "exp (7 :: real) = exp (27 / 4) * exp (1 / 4)"
    by (simp flip: exp_add)
  show e28: "27415824569 / 25000000 \<le> exp (7 :: real) \<and> exp (7 :: real) \<le> 109663324947 / 100000000"
    unfolding m28 by (rule enclosure_times [OF e27 q]) simp_all
qed

lemma tmp_val_mono: "m \<le> n \<Longrightarrow> tmp_val m \<le> tmp_val n"
proof (induction n)
  case 0
  then show ?case by simp
next
  case (Suc n)
  have step: "tmp_val n \<le> tmp_val (Suc n)" by simp
  show ?case
  proof (cases "m = Suc n")
    case True
    then show ?thesis by simp
  next
    case False
    with Suc.prems have "m \<le> n" by simp
    then have "tmp_val m \<le> tmp_val n" by (rule Suc.IH)
    from this step show ?thesis by (rule order_trans)
  qed
qed

lemma tmp_val_ge_1: "1 \<le> tmp_val n"
  using tmp_val_mono [of 0 n] by simp

lemma tmp_val_1: "2 \<le> tmp_val 1 \<and> tmp_val 1 < 3"
proof -
  have "tmp_val 1 = 1 + exp (1 / 2)"
    by (simp add: eval_nat_numeral)
  then show ?thesis
    using exp_quarter_multiples(1) by simp
qed

lemma tmp_val_2: "4 \<le> tmp_val 2 \<and> tmp_val 2 < 5"
proof -
  have "tmp_val 2 = 1 + exp (1 / 2) + exp (3 / 4)"
    by (simp add: eval_nat_numeral)
  then show ?thesis
    using exp_quarter_multiples(1,2) by simp
qed

lemma tmp_val_27: "4952 \<le> tmp_val 27 \<and> tmp_val 27 < 4953"
proof -
  have "tmp_val 27 =
    1 + exp (1 / 2) + exp (3 / 4) + exp 1 + exp (5 / 4) + exp (3 / 2) + exp (7 / 4) + exp (2) + exp (9 / 4) + exp (5 / 2) + exp (11 / 4) + exp (3) + exp (13 / 4) + exp (7 / 2) + exp (15 / 4) + exp (4) + exp (17 / 4) + exp (9 / 2) + exp (19 / 4) + exp (5) + exp (21 / 4) + exp (11 / 2) + exp (23 / 4) + exp (6) + exp (25 / 4) + exp (13 / 2) + exp (27 / 4) + exp (7)"
    by (simp add: eval_nat_numeral)
  then show ?thesis
    using exp_quarter_multiples by simp
qed

lemma floor_tmp_val: "\<lfloor>tmp_val 1\<rfloor> = 2" "\<lfloor>tmp_val 2\<rfloor> = 4" "\<lfloor>tmp_val 27\<rfloor> = 4952"
  using tmp_val_1 tmp_val_2 tmp_val_27 by (simp_all add: floor_eq_iff)

lemma floor_tmp_val_mono: "m \<le> n \<Longrightarrow> \<lfloor>tmp_val m\<rfloor> \<le> \<lfloor>tmp_val n\<rfloor>"
  by (intro floor_mono tmp_val_mono)

lemma floor_tmp_val_ge_1: "1 \<le> \<lfloor>tmp_val n\<rfloor>"
  using tmp_val_ge_1 [of n] by linarith

text \<open>The inner loop writes the temperature \<open>hi - lo\<close> times, if \<^verbatim>\<open>T\<close> has the room.\<close>

lemma emit_loop:
  "length T + nat (hi - lo) \<le> 100000 \<Longrightarrow>
   for_loop lo hi
     (\<lambda>j T'. if length T' < 100000 then Inr (T' @ [v]) else Inl OutOfBounds) T =
   Inr (T @ replicate (nat (hi - lo)) v)"
proof (induction lo hi "\<lambda>(j::int) T'. if length T' < 100000 then Inr (T' @ [v]) else Inl OutOfBounds"
    T rule: for_loop.induct)
  case (1 i n s)
  show ?case
  proof (cases "i < n")
    case True
    then have n: "nat (n - i) = Suc (nat (n - (i + 1)))" by simp
    with "1.prems" have l: "length s < 100000" by simp
    have "length (s @ [v]) + nat (n - (i + 1)) \<le> 100000" using "1.prems" n by simp
    from "1.hyps" [OF True this] True l show ?thesis
      by (subst for_loop.simps) (simp add: n replicate_app_Cons_same)
  next
    case False
    then show ?thesis by (subst for_loop.simps) simp
  qed
qed

lemma cooling_step_eval:
  assumes "1 \<le> i" and "i < 50" and "length tmp = 50" and "tmp ! nat (i - 1) = Fin x"
    and "1 \<le> x" and "y = x + exp (1 / 4 * (real_of_int i + 1))" and "y < 2147483648"
    and "length T + nat (\<lfloor>y\<rfloor> - \<lfloor>x\<rfloor>) \<le> 100000"
  shows "cooling_step i (tmp, T) =
     Inr (tmp[nat i := Fin y], T @ replicate (nat (\<lfloor>y\<rfloor> - \<lfloor>x\<rfloor>)) (Fin (1 / (real_of_int i + 1))))"
proof -
  have xy: "x \<le> y" using assms(6) by simp
  have fx: "0 \<le> \<lfloor>x\<rfloor>" "\<lfloor>x\<rfloor> \<le> 2147483647" using assms(5,7) xy by linarith+
  have fy: "0 \<le> \<lfloor>y\<rfloor>" "\<lfloor>y\<rfloor> \<le> 2147483647" using assms(5,7) xy by linarith+
  have cx: "d_to_int (Fin x) = Inr \<lfloor>x\<rfloor>" using assms(5) fx by (simp add: d_to_int_def)
  have cy: "d_to_int (Fin y) = Inr \<lfloor>y\<rfloor>" using assms(5) xy fy by (simp add: d_to_int_def)
  have prev: "nth_e tmp (i - 1) = Inr (Fin x)"
    using assms(1-4) by (simp add: nth_e_def)
  have cur: "dadd (Fin x) (dexp (dmul (Fin (1 / 4)) (d_of_int (i + 1)))) = Fin y"
    using assms(6) by (simp add: d_of_int_def)
  have v: "ddiv (Fin 1) (d_of_int (i + 1)) = Fin (1 / (real_of_int i + 1))"
    using assms(1) by (simp add: d_of_int_def)
  show ?thesis
    using assms(1-3)
    by (simp add: cooling_step_def prev cur cx cy v emit_loop [OF assms(8)] del: dadd.simps dexp.simps dmul.simps ddiv.simps)
qed

lemma cooling_T_Suc:
  "cooling_T (Suc k) =
   cooling_T k @ replicate (nat (\<lfloor>tmp_val (Suc k)\<rfloor> - \<lfloor>tmp_val k\<rfloor>)) (Fin (1 / (real k + 2)))"
  by (simp add: cooling_T_def add.commute)

lemma length_cooling_T: "length (cooling_T k) = nat (\<lfloor>tmp_val k\<rfloor> - 1)"
proof (induction k)
  case 0
  then show ?case by (simp add: cooling_T_def)
next
  case (Suc k)
  have "1 \<le> \<lfloor>tmp_val k\<rfloor>" by (rule floor_tmp_val_ge_1)
  moreover have "\<lfloor>tmp_val k\<rfloor> \<le> \<lfloor>tmp_val (Suc k)\<rfloor>" by (rule floor_tmp_val_mono) simp
  ultimately show ?case
    unfolding cooling_T_Suc length_append length_replicate Suc.IH by linarith
qed

lemma cooling_loop:
  "k \<le> 27 \<Longrightarrow>
   \<exists>tmp. for_loop 1 (int k + 1) cooling_step (Fin 1 # replicate 49 (Fin 0), []) =
           Inr (tmp, cooling_T k)
       \<and> length tmp = 50 \<and> (\<forall>j\<le>k. tmp ! j = Fin (tmp_val j))"
proof (induction k)
  case 0
  have "for_loop 1 1 cooling_step (Fin 1 # replicate 49 (Fin 0), []) =
      Inr (Fin 1 # replicate 49 (Fin 0), [])"
    by (subst for_loop.simps) simp
  then show ?case by (simp add: cooling_T_def)
next
  case (Suc k)
  then obtain tmp where
    run: "for_loop 1 (int k + 1) cooling_step (Fin 1 # replicate 49 (Fin 0), []) =
            Inr (tmp, cooling_T k)"
    and len: "length tmp = 50" and vals: "\<forall>j\<le>k. tmp ! j = Fin (tmp_val j)"
    by auto
  let ?i = "int k + 1"
  have up: "tmp_val (Suc k) < 2147483648"
    using tmp_val_mono [of "Suc k" 27] tmp_val_27 Suc.prems by simp
  have "\<lfloor>tmp_val (Suc k)\<rfloor> \<le> \<lfloor>tmp_val 27\<rfloor>"
    using Suc.prems by (intro floor_tmp_val_mono) simp
  moreover have "\<lfloor>tmp_val k\<rfloor> \<le> \<lfloor>tmp_val (Suc k)\<rfloor>" by (rule floor_tmp_val_mono) simp
  moreover have "1 \<le> \<lfloor>tmp_val k\<rfloor>" by (rule floor_tmp_val_ge_1)
  ultimately have room:
    "length (cooling_T k) + nat (\<lfloor>tmp_val (Suc k)\<rfloor> - \<lfloor>tmp_val k\<rfloor>) \<le> 100000"
    unfolding length_cooling_T floor_tmp_val by linarith
  have step: "cooling_step ?i (tmp, cooling_T k) =
      Inr (tmp[nat ?i := Fin (tmp_val (Suc k))],
           cooling_T k @ replicate (nat (\<lfloor>tmp_val (Suc k)\<rfloor> - \<lfloor>tmp_val k\<rfloor>))
             (Fin (1 / (real_of_int ?i + 1))))"
  proof (rule cooling_step_eval [OF _ _ len _ _ _ up room])
    show "1 \<le> ?i" by simp
    show "?i < 50" using Suc.prems by simp
    show "tmp ! nat (?i - 1) = Fin (tmp_val k)" using vals by simp
    show "1 \<le> tmp_val k" by (rule tmp_val_ge_1)
    show "tmp_val (Suc k) = tmp_val k + exp (1 / 4 * (real_of_int ?i + 1))"
      by (simp add: add.commute)
  qed
  have T: "cooling_T k @ replicate (nat (\<lfloor>tmp_val (Suc k)\<rfloor> - \<lfloor>tmp_val k\<rfloor>))
             (Fin (1 / (real_of_int ?i + 1))) = cooling_T (Suc k)"
  proof -
    have "real_of_int ?i + 1 = real k + 2" by simp
    then show ?thesis unfolding cooling_T_Suc by (simp only:)
  qed
  have one: "for_loop ?i (int (Suc k) + 1) cooling_step (tmp, cooling_T k) =
      Inr (tmp[nat ?i := Fin (tmp_val (Suc k))], cooling_T (Suc k))"
  proof -
    have lt: "?i < int (Suc k) + 1" by simp
    have e: "for_loop (?i + 1) (int (Suc k) + 1) cooling_step s = Inr s" for s
      by (subst for_loop.simps) simp
    show ?thesis
      by (subst for_loop.simps) (simp only: lt if_True step bindE_Inr e T)
  qed
  have "for_loop 1 (int (Suc k) + 1) cooling_step (Fin 1 # replicate 49 (Fin 0), []) =
      bindE (for_loop 1 ?i cooling_step (Fin 1 # replicate 49 (Fin 0), []))
        (for_loop ?i (int (Suc k) + 1) cooling_step)"
    by (rule for_loop_split) simp_all
  then have all: "for_loop 1 (int (Suc k) + 1) cooling_step (Fin 1 # replicate 49 (Fin 0), []) =
      Inr (tmp[nat ?i := Fin (tmp_val (Suc k))], cooling_T (Suc k))"
    by (simp only: run bindE_Inr one)
  have "(tmp[nat ?i := Fin (tmp_val (Suc k))]) ! j = Fin (tmp_val j)" if "j \<le> Suc k" for j
  proof (cases "j = Suc k")
    case True
    then show ?thesis using len Suc.prems by (simp add: nat_add_distrib del: tmp_val.simps)
  next
    case False
    with that have "j \<le> k" by simp
    with vals False show ?thesis by (simp add: nat_add_distrib del: tmp_val.simps)
  qed
  with all len show ?case by (intro exI [of _ "tmp[nat ?i := Fin (tmp_val (Suc k))]"]) simp
qed

lemma cooling_schedule_eq: "cooling_schedule = Inr (cooling_T 27)"
  using cooling_loop [of 27] by (auto simp: cooling_schedule_def)

lemma cooling_T_prefix: "m \<le> n \<Longrightarrow> \<exists>rest. cooling_T n = cooling_T m @ rest"
proof (induction n)
  case 0
  then show ?case by simp
next
  case (Suc n)
  show ?case
  proof (cases "m = Suc n")
    case True
    then show ?thesis by simp
  next
    case False
    with Suc.prems have "m \<le> n" by simp
    then obtain rest where "cooling_T n = cooling_T m @ rest" using Suc.IH by blast
    then show ?thesis unfolding cooling_T_Suc by simp
  qed
qed

lemma cooling_T_2: "cooling_T 2 = [Fin (1 / 2), Fin (1 / 3), Fin (1 / 3)]"
proof -
  have f0: "\<lfloor>tmp_val 0\<rfloor> = 1" by simp
  have f1: "\<lfloor>tmp_val (Suc 0)\<rfloor> = 2"
    using floor_tmp_val(1) by (simp only: One_nat_def)
  have f2: "\<lfloor>tmp_val (Suc (Suc 0))\<rfloor> = 4"
    using floor_tmp_val(2) by (simp only: numeral_2_eq_2)
  have c0: "cooling_T 0 = []" by (simp add: cooling_T_def)
  have c1: "cooling_T (Suc 0) = [Fin (1 / 2)]"
    unfolding cooling_T_Suc c0 f0 f1 by simp
  have "cooling_T (Suc (Suc 0)) = [Fin (1 / 2), Fin (1 / 3), Fin (1 / 3)]"
    unfolding cooling_T_Suc [of "Suc 0"] c1 f1 f2 by (simp add: eval_nat_numeral)
  then show ?thesis by (simp only: numeral_2_eq_2)
qed

lemma cooling_T_sorted: "sorted_wrt (\<lambda>a b. dge a b) (cooling_T n)"
proof (induction n)
  case 0
  then show ?case by (simp add: cooling_T_def)
next
  case (Suc n)
  have blk: "sorted_wrt (\<lambda>a b. dge a b) (replicate c (Fin v))" for c v
    by (simp add: sorted_wrt_iff_nth_less dge_def)
  have el: "\<exists>m. 1 \<le> m \<and> m \<le> k \<and> x = Fin (1 / (real m + 1))" if "x \<in> set (cooling_T k)" for x k
    using that by (auto simp: cooling_T_def)
  have "dge x (Fin (1 / (real n + 2)))" if "x \<in> set (cooling_T n)" for x
  proof -
    from el [OF that] obtain m where m: "m \<le> n" "x = Fin (1 / (real m + 1))" by blast
    then have "1 / (real n + 2) \<le> 1 / (real m + 1)" by (intro divide_left_mono) simp_all
    with m show ?thesis by (simp add: dge_def)
  qed
  with Suc.IH blk show ?case
    unfolding cooling_T_Suc by (auto simp: sorted_wrt_append)
qed

lemma cooling_T_values: "set (cooling_T n) \<subseteq> (\<lambda>i. Fin (1 / (real i + 1))) ` {1..n}"
  by (auto simp: cooling_T_def)



end
